theory Spec2Isabelle
  imports Main
begin

section \<open>Trigger rules (models/trigger\_map\_item.go)\<close>

text \<open>
  A Go \<open>error\<close> is modelled by its message, \<open>None\<close> being \<open>nil\<close>. A result pair
  \<open>(v, err)\<close> of the source is a pair here. A run-time panic of the source is the
  value \<open>None\<close> of an outer option type.
\<close>

type_synonym error = "string option"

datatype TriggerEventType =
    TriggerEventTypeCodePush
  | TriggerEventTypePullRequest
  | TriggerEventTypeTag
  | TriggerEventTypeUnknown

text \<open>\<open>PullRequestReadyState\<close> and \<open>TriggerItemType\<close> are string types in the source.\<close>

type_synonym PullRequestReadyState = string

definition PullRequestReadyStateDraft :: PullRequestReadyState where
  "PullRequestReadyStateDraft = ''draft''"

definition PullRequestReadyStateReadyForReview :: PullRequestReadyState where
  "PullRequestReadyStateReadyForReview = ''ready_for_review''"

definition PullRequestReadyStateConvertedToReadyForReview :: PullRequestReadyState where
  "PullRequestReadyStateConvertedToReadyForReview = ''converted_to_ready_for_review''"

definition defaultDraftPullRequestEnabled :: bool where
  "defaultDraftPullRequestEnabled = True"

type_synonym TriggerItemType = string

definition CodePushType :: TriggerItemType where
  "CodePushType = ''code-push''"

definition PullRequestType :: TriggerItemType where
  "PullRequestType = ''pull-request''"

definition TagPushType :: TriggerItemType where
  "TagPushType = ''tag-push''"

text \<open>
  A condition field is an \<open>interface{}\<close>: \<open>nil\<close>, a \<open>string\<close>, a
  \<open>TriggerItemConditionRegexValue\<close> (carrying its \<open>Regex\<close> field), or a value of any
  other dynamic type.
\<close>

datatype condition =
    NilValue
  | StringValue string
  | RegexValue string
  | OtherValue

record TriggerMapItemModel =
  Type :: TriggerItemType
  Enabled :: bool
  PipelineID :: string
  WorkflowID :: string
  PushBranch :: condition
  CommitMessage :: condition
  ChangedFiles :: condition
  Tag :: condition
  PullRequestSourceBranch :: condition
  PullRequestTargetBranch :: condition
  DraftPullRequestEnabled :: "bool option"
  PullRequestLabel :: condition
  Pattern :: string
  IsPullRequestAllowed :: bool

text \<open>The zero value of the struct, which a composite literal starts from.\<close>

definition zeroItem :: TriggerMapItemModel where
  "zeroItem = \<lparr> Type = [], Enabled = False, PipelineID = [], WorkflowID = [],
     PushBranch = NilValue, CommitMessage = NilValue, ChangedFiles = NilValue,
     Tag = NilValue, PullRequestSourceBranch = NilValue,
     PullRequestTargetBranch = NilValue, DraftPullRequestEnabled = None,
     PullRequestLabel = NilValue, Pattern = [], IsPullRequestAllowed = False \<rparr>"

text \<open>
  \<open>stringFromTriggerCondition\<close>: \<open>value.(string)\<close> is an unchecked type assertion,
  which panics on every non-nil value that is not a string.
\<close>

fun stringFromTriggerCondition :: "condition \<Rightarrow> string option" where
  "stringFromTriggerCondition NilValue = Some []"
| "stringFromTriggerCondition (StringValue s) = Some s"
| "stringFromTriggerCondition (RegexValue r) = None"
| "stringFromTriggerCondition OtherValue = None"

fun stringLiteralOrRegex :: "condition \<Rightarrow> string" where
  "stringLiteralOrRegex NilValue = []"
| "stringLiteralOrRegex (StringValue s) = s"
| "stringLiteralOrRegex (RegexValue r) = r"
| "stringLiteralOrRegex OtherValue = []"

definition isStringLiteralOrRegexSet :: "condition \<Rightarrow> bool" where
  "isStringLiteralOrRegexSet v = (stringLiteralOrRegex v \<noteq> [])"

definition triggerEventType ::
  "string \<Rightarrow> string \<Rightarrow> string \<Rightarrow> string \<Rightarrow> TriggerEventType \<times> error" where
  "triggerEventType pushBranch prSourceBranch prTargetBranch tag =
     (if pushBranch \<noteq> [] then
        if prSourceBranch \<noteq> [] then
          (TriggerEventTypeUnknown,
           Some (''push_branch ('' @ pushBranch @
                 '') selects code-push trigger event, but pull_request_source_branch ('' @
                 prSourceBranch @ '') also provided''))
        else if prTargetBranch \<noteq> [] then
          (TriggerEventTypeUnknown,
           Some (''push_branch ('' @ pushBranch @
                 '') selects code-push trigger event, but pull_request_target_branch ('' @
                 prTargetBranch @ '') also provided''))
        else if tag \<noteq> [] then
          (TriggerEventTypeUnknown,
           Some (''push_branch ('' @ pushBranch @
                 '') selects code-push trigger event, but tag ('' @ tag @
                 '') also provided''))
        else (TriggerEventTypeCodePush, None)
      else if prSourceBranch \<noteq> [] \<or> prTargetBranch \<noteq> [] then
        if tag \<noteq> [] then
          (TriggerEventTypeUnknown,
           Some (''pull_request_source_branch ('' @ prSourceBranch @
                 '') and pull_request_target_branch ('' @ prTargetBranch @
                 '') selects pull-request trigger event, but tag ('' @ tag @
                 '') also provided''))
        else (TriggerEventTypePullRequest, None)
      else if tag \<noteq> [] then (TriggerEventTypeTag, None)
      else
        (TriggerEventTypeUnknown,
         Some (''failed to determin trigger event from params: push-branch: '' @ pushBranch @
               '', pr-source-branch: '' @ prSourceBranch @
               '', pr-target-branch: '' @ prTargetBranch @ '', tag: '' @ tag)))"

definition migrateDeprecatedTriggerItem :: "TriggerMapItemModel \<Rightarrow> TriggerMapItemModel list" where
  "migrateDeprecatedTriggerItem triggerItem =
     [zeroItem \<lparr> PushBranch := StringValue (Pattern triggerItem),
                 WorkflowID := WorkflowID triggerItem \<rparr>] @
     (if IsPullRequestAllowed triggerItem
      then [zeroItem \<lparr> PullRequestSourceBranch := StringValue (Pattern triggerItem),
                       WorkflowID := WorkflowID triggerItem \<rparr>]
      else [])"

definition IsDraftPullRequestEnabled :: "TriggerMapItemModel \<Rightarrow> bool" where
  "IsDraftPullRequestEnabled item =
     (case DraftPullRequestEnabled item of
        None \<Rightarrow> defaultDraftPullRequestEnabled
      | Some b \<Rightarrow> b)"

text \<open>
  \<open>glob.Glob\<close> belongs to an external library (ryanuber/go-glob); the model takes the
  matcher as the parameter \<open>glob\<close>, pattern first.
\<close>

type_synonym matcher = "string \<Rightarrow> string \<Rightarrow> bool"

text \<open>
  The body of the \<open>for\<close> loop of \<open>MatchWithParams\<close> over the migrated items. The four
  conversions at the head of the body run left to right and each may panic. A
  \<open>continue\<close>, and a \<open>switch\<close> in which no case applies, go on with the remaining
  items; the end of the loop returns \<open>(false, nil)\<close>.
\<close>

fun matchMigratedItems ::
  "matcher \<Rightarrow> TriggerEventType \<Rightarrow> string \<Rightarrow> string \<Rightarrow> string \<Rightarrow>
   PullRequestReadyState \<Rightarrow> string \<Rightarrow> TriggerMapItemModel list \<Rightarrow> (bool \<times> error) option" where
  "matchMigratedItems glob paramsEventType pushBranch prSourceBranch prTargetBranch
     prReadyState tag [] = Some (False, None)"
| "matchMigratedItems glob paramsEventType pushBranch prSourceBranch prTargetBranch
     prReadyState tag (migratedTriggerItem # rest) =
     (case stringFromTriggerCondition (PushBranch migratedTriggerItem) of
        None \<Rightarrow> None
      | Some itemPushBranch \<Rightarrow>
     (case stringFromTriggerCondition (PullRequestSourceBranch migratedTriggerItem) of
        None \<Rightarrow> None
      | Some itemSourceBranch \<Rightarrow>
     (case stringFromTriggerCondition (PullRequestTargetBranch migratedTriggerItem) of
        None \<Rightarrow> None
      | Some itemTargetBranch \<Rightarrow>
     (case stringFromTriggerCondition (Tag migratedTriggerItem) of
        None \<Rightarrow> None
      | Some itemTag \<Rightarrow>
     (case triggerEventType itemPushBranch itemSourceBranch itemTargetBranch itemTag of
        (itemEventType, Some err) \<Rightarrow> Some (False, Some err)
      | (itemEventType, None) \<Rightarrow>
          if paramsEventType \<noteq> itemEventType then
            matchMigratedItems glob paramsEventType pushBranch prSourceBranch
              prTargetBranch prReadyState tag rest
          else
            (case itemEventType of
               TriggerEventTypeCodePush \<Rightarrow> Some (glob itemPushBranch pushBranch, None)
             | TriggerEventTypePullRequest \<Rightarrow>
                 (let sourceMatch =
                        (if itemSourceBranch = [] then True
                         else glob itemSourceBranch prSourceBranch);
                      targetMatch =
                        (if itemTargetBranch = [] then True
                         else glob itemTargetBranch prTargetBranch);
                      stateMismatch =
                        (if IsDraftPullRequestEnabled migratedTriggerItem
                         then prReadyState = PullRequestReadyStateConvertedToReadyForReview
                         else prReadyState = PullRequestReadyStateDraft)
                  in Some (sourceMatch \<and> targetMatch \<and> \<not> stateMismatch, None))
             | TriggerEventTypeTag \<Rightarrow> Some (glob itemTag tag, None)
             | TriggerEventTypeUnknown \<Rightarrow>
                 matchMigratedItems glob paramsEventType pushBranch prSourceBranch
                   prTargetBranch prReadyState tag rest))))))"

definition MatchWithParams ::
  "matcher \<Rightarrow> TriggerMapItemModel \<Rightarrow> string \<Rightarrow> string \<Rightarrow> string \<Rightarrow>
   PullRequestReadyState \<Rightarrow> string \<Rightarrow> (bool \<times> error) option" where
  "MatchWithParams glob item pushBranch prSourceBranch prTargetBranch prReadyState tag =
     (case triggerEventType pushBranch prSourceBranch prTargetBranch tag of
        (paramsEventType, Some err) \<Rightarrow> Some (False, Some err)
      | (paramsEventType, None) \<Rightarrow>
          matchMigratedItems glob paramsEventType pushBranch prSourceBranch prTargetBranch
            prReadyState tag
            (if Pattern item \<noteq> [] then migrateDeprecatedTriggerItem item else [item]))"

subsection \<open>Validation of a trigger item\<close>

text \<open>
  The verb \<open>%d\<close> of \<open>fmt\<close>: decimal digits, with a minus sign below zero. The
  index \<open>idx\<close> of a trigger item is a Go \<open>int\<close>, modelled as an integer; it is an
  index into the trigger map, so that \<open>idx + 1\<close> does not wrap around.
\<close>

fun showNat :: "nat \<Rightarrow> string" where
  "showNat n =
     (if n < 10 then [''0123456789'' ! n]
      else showNat (n div 10) @ [''0123456789'' ! (n mod 10)])"

definition showInt :: "int \<Rightarrow> string" where
  "showInt i = (if i < 0 then ''-'' @ showNat (nat (- i)) else showNat (nat i))"

definition ordinal :: "int \<Rightarrow> string" where
  "ordinal idx = showInt (idx + 1) @ ''. trigger item''"

definition validateStringType :: "int \<Rightarrow> string \<Rightarrow> condition \<Rightarrow> error" where
  "validateStringType idx field v =
     (case v of
        NilValue \<Rightarrow> None
      | StringValue s \<Rightarrow> None
      | _ \<Rightarrow> Some (''string literal value is expected for '' @ field @ '' in the '' @
                   ordinal idx))"

definition validateStringOrRegexType :: "int \<Rightarrow> string \<Rightarrow> condition \<Rightarrow> error" where
  "validateStringOrRegexType idx field v =
     (case v of
        NilValue \<Rightarrow> None
      | StringValue s \<Rightarrow> None
      | RegexValue r \<Rightarrow> None
      | OtherValue \<Rightarrow>
          Some (''string literal or regex value is expected for '' @ field @ '' in the '' @
                ordinal idx))"

definition bothDefined :: "string \<Rightarrow> string \<Rightarrow> int \<Rightarrow> error" where
  "bothDefined field other idx =
     Some (''both '' @ field @ '' and '' @ other @ '' defined in the '' @ ordinal idx)"

definition validateNoCodePushConditionsSet :: "TriggerMapItemModel \<Rightarrow> int \<Rightarrow> string \<Rightarrow> error" where
  "validateNoCodePushConditionsSet item idx field =
     (if isStringLiteralOrRegexSet (PushBranch item) then bothDefined field ''push_branch'' idx
      else if isStringLiteralOrRegexSet (CommitMessage item)
        then bothDefined field ''commit_message'' idx
      else if isStringLiteralOrRegexSet (ChangedFiles item)
        then bothDefined field ''changed_files'' idx
      else None)"

definition validateNoTagPushConditionsSet :: "TriggerMapItemModel \<Rightarrow> int \<Rightarrow> string \<Rightarrow> error" where
  "validateNoTagPushConditionsSet item idx field =
     (if isStringLiteralOrRegexSet (Tag item) then bothDefined field ''tag'' idx else None)"

definition validateNoPullRequestConditionsSet ::
  "TriggerMapItemModel \<Rightarrow> int \<Rightarrow> string \<Rightarrow> error" where
  "validateNoPullRequestConditionsSet item idx field =
     (if isStringLiteralOrRegexSet (PullRequestSourceBranch item)
        then bothDefined field ''pull_request_source_branch'' idx
      else if isStringLiteralOrRegexSet (PullRequestTargetBranch item)
        then bothDefined field ''pull_request_target_branch'' idx
      else if IsDraftPullRequestEnabled item \<noteq> defaultDraftPullRequestEnabled
        then bothDefined field ''draft_pull_request_enabled'' idx
      else if isStringLiteralOrRegexSet (PullRequestLabel item)
        then bothDefined field ''pull_request_label'' idx
      else None)"

text \<open>Sequencing of checks: the first error returned ends the function.\<close>

definition orElse :: "error \<Rightarrow> error \<Rightarrow> error" where
  "orElse e rest = (case e of Some m \<Rightarrow> Some m | None \<Rightarrow> rest)"

definition validateTypeOfLegacyItem :: "TriggerMapItemModel \<Rightarrow> int \<Rightarrow> error" where
  "validateTypeOfLegacyItem item idx =
     orElse (validateNoCodePushConditionsSet item idx ''pattern'')
    (orElse (validateNoTagPushConditionsSet item idx ''pattern'')
            (validateNoPullRequestConditionsSet item idx ''pattern''))"

definition validateTypeOfItem :: "TriggerMapItemModel \<Rightarrow> int \<Rightarrow> error" where
  "validateTypeOfItem item idx =
     (if isStringLiteralOrRegexSet (PushBranch item) then
        orElse (validateNoTagPushConditionsSet item idx ''push_branch'')
               (validateNoPullRequestConditionsSet item idx ''push_branch'')
      else if isStringLiteralOrRegexSet (PullRequestSourceBranch item) then
        orElse (validateNoCodePushConditionsSet item idx ''pull_request_source_branch'')
               (validateNoTagPushConditionsSet item idx ''pull_request_source_branch'')
      else if isStringLiteralOrRegexSet (PullRequestTargetBranch item) then
        orElse (validateNoCodePushConditionsSet item idx ''pull_request_target_branch'')
               (validateNoTagPushConditionsSet item idx ''pull_request_target_branch'')
      else if isStringLiteralOrRegexSet (Tag item) then
        orElse (validateNoCodePushConditionsSet item idx ''tag'')
               (validateNoPullRequestConditionsSet item idx ''tag'')
      else if \<not> isStringLiteralOrRegexSet (Tag item) then
        Some (''no trigger condition defined defined in the '' @ ordinal idx)
      else None)"

definition validateTypeOfItemWithExplicitType :: "TriggerMapItemModel \<Rightarrow> int \<Rightarrow> error" where
  "validateTypeOfItemWithExplicitType item idx =
     (if Type item = CodePushType then
        orElse (validateNoTagPushConditionsSet item idx (CodePushType @ '' type''))
               (validateNoPullRequestConditionsSet item idx (CodePushType @ '' type''))
      else if Type item = PullRequestType then
        orElse (validateNoCodePushConditionsSet item idx (PullRequestType @ '' type''))
               (validateNoTagPushConditionsSet item idx (PullRequestType @ '' type''))
      else if Type item = TagPushType then
        orElse (validateNoCodePushConditionsSet item idx (TagPushType @ '' type''))
               (validateNoPullRequestConditionsSet item idx (TagPushType @ '' type''))
      else None)"

definition validateConditionValuesOfItem :: "TriggerMapItemModel \<Rightarrow> int \<Rightarrow> error" where
  "validateConditionValuesOfItem item idx =
     orElse (validateStringType idx ''push_branch'' (PushBranch item))
    (orElse (validateStringType idx ''tag'' (Tag item))
    (orElse (validateStringType idx ''pull_request_source_branch''
               (PullRequestSourceBranch item))
            (validateStringType idx ''pull_request_target_branch''
               (PullRequestTargetBranch item))))"

definition validateConditionValuesOfItemWithExplicitType ::
  "TriggerMapItemModel \<Rightarrow> int \<Rightarrow> error" where
  "validateConditionValuesOfItemWithExplicitType item idx =
     orElse (validateStringOrRegexType idx ''push_branch'' (PushBranch item))
    (orElse (validateStringOrRegexType idx ''commit_message'' (CommitMessage item))
    (orElse (validateStringOrRegexType idx ''changed_files'' (ChangedFiles item))
    (orElse (validateStringOrRegexType idx ''tag'' (Tag item))
    (orElse (validateStringOrRegexType idx ''pull_request_source_branch''
               (PullRequestSourceBranch item))
    (orElse (validateStringOrRegexType idx ''pull_request_target_branch''
               (PullRequestTargetBranch item))
            (validateStringOrRegexType idx ''pull_request_label''
               (PullRequestLabel item)))))))"

text \<open>\<open>validateTarget\<close> returns the warnings collected so far together with the error.\<close>

definition validateTarget ::
  "TriggerMapItemModel \<Rightarrow> int \<Rightarrow> string list \<Rightarrow> string list \<Rightarrow> string list \<times> error" where
  "validateTarget item idx workflows pipelines =
     (if PipelineID item \<noteq> [] \<and> WorkflowID item \<noteq> [] then
        ([], Some (''both pipeline and workflow are defined as trigger target for the '' @
                   ordinal idx))
      else if PipelineID item = [] \<and> WorkflowID item = [] then
        ([], Some (''no pipeline nor workflow is defined as a trigger target for the '' @
                   ordinal idx))
      else
        (let warnings =
               (if take 1 (WorkflowID item) = ''_''
                then [''utility workflow ('' @ WorkflowID item @
                      '') defined as trigger target for the '' @ ordinal idx @
                      '', but utility workflows can't be triggered directly'']
                else [])
         in if PipelineID item \<noteq> [] then
              (if PipelineID item \<notin> set pipelines then
                 (warnings, Some (''pipeline ('' @ PipelineID item @ '') defined in the '' @
                                  ordinal idx @ '', but does not exist''))
               else (warnings, None))
            else
              (if WorkflowID item \<notin> set workflows then
                 (warnings, Some (''workflow ('' @ WorkflowID item @ '') defined in the '' @
                                  ordinal idx @ '', but does not exist''))
               else (warnings, None))))"

definition Validate ::
  "TriggerMapItemModel \<Rightarrow> int \<Rightarrow> string list \<Rightarrow> string list \<Rightarrow> string list \<times> error" where
  "Validate item idx workflows pipelines =
     (case validateTarget item idx workflows pipelines of
        (warnings, Some err) \<Rightarrow> (warnings, Some err)
      | (warnings, None) \<Rightarrow>
          if Pattern item \<noteq> [] then (warnings, validateTypeOfLegacyItem item idx)
          else if Type item = [] then
            (warnings, orElse (validateTypeOfItem item idx)
                              (validateConditionValuesOfItem item idx))
          else
            (warnings, orElse (validateTypeOfItemWithExplicitType item idx)
                              (validateConditionValuesOfItemWithExplicitType item idx)))"

section \<open>Resolution by pattern (cli/trigger\_check.go)\<close>

fun validateTriggerMap :: "TriggerMapItemModel list \<Rightarrow> error" where
  "validateTriggerMap [] = None"
| "validateTriggerMap (item # rest) =
     (if Pattern item = [] then
        Some (''invalid trigger item: ('' @ Pattern item @ '') -> ('' @ WorkflowID item @
              ''), error: empty pattern'')
      else if WorkflowID item = [] then
        Some (''invalid trigger item: ('' @ Pattern item @ '') -> ('' @ WorkflowID item @
              ''), error: empty workflow id'')
      else validateTriggerMap rest)"

text \<open>
  The loop of \<open>getWorkflowIDByPattern\<close>, with the local flag
  \<open>matchFoundButPullRequestModeNotAllowed\<close> as an argument, followed by the two
  returns after the loop.
\<close>

fun workflowLoop ::
  "matcher \<Rightarrow> string \<Rightarrow> bool \<Rightarrow> bool \<Rightarrow> TriggerMapItemModel list \<Rightarrow> string \<times> error" where
  "workflowLoop glob pattern isPullRequestMode matchFoundButPullRequestModeNotAllowed [] =
     (if matchFoundButPullRequestModeNotAllowed then
        ([], Some (''Run triggered by pattern: ('' @ pattern @
                   '') in pull request mode, but matching workflow disabled in pull request mode''))
      else
        ([], Some (''Run triggered by pattern: ('' @ pattern @
                   ''), but no matching workflow found'')))"
| "workflowLoop glob pattern isPullRequestMode matchFoundButPullRequestModeNotAllowed
     (item # rest) =
     (if glob (Pattern item) pattern then
        if isPullRequestMode \<and> \<not> IsPullRequestAllowed item then
          workflowLoop glob pattern isPullRequestMode True rest
        else (WorkflowID item, None)
      else
        workflowLoop glob pattern isPullRequestMode matchFoundButPullRequestModeNotAllowed rest)"

definition getWorkflowIDByPattern ::
  "matcher \<Rightarrow> TriggerMapItemModel list \<Rightarrow> string \<Rightarrow> bool \<Rightarrow> string \<times> error" where
  "getWorkflowIDByPattern glob triggerMap pattern isPullRequestMode =
     (case validateTriggerMap triggerMap of
        Some err \<Rightarrow> ([], Some err)
      | None \<Rightarrow> workflowLoop glob pattern isPullRequestMode False triggerMap)"

section \<open>Config composition (configmerge)\<close>

text \<open>
  Modelled from the spec: the config composition engine (\<open>Merger.MergeConfig\<close> of the
  package \<open>configmerge\<close>) is missing from the sources, which hold its tests only
  (\<open>configmerge/configmerge_test.go\<close>). The definitions of this section follow
  sections 3, 4.5 and 6 of the specification. Where the specification leaves a choice
  open, the tests of the repository decide: the test "Max include depth is 5" expects
  a root with five nested includes to fail, so a reference is refused when the chain
  would hold more than five files, the root counted; the cycle test expects the chain
  from the root through the repeated reference.
\<close>

text \<open>
  Modelled from the spec: the merged document, "a tree of string keys to
  scalar/sequence/mapping values".
\<close>

datatype yaml = Scalar string | Sequence "yaml list" | Mapping "(string \<times> yaml) list"

text \<open>
  Modelled from the spec: the merge of section 4.5, step 5. The second argument has the
  higher priority: nested mappings merge key by key, any other value replaces the
  earlier one wholesale.
\<close>

fun mergeValue :: "yaml \<Rightarrow> yaml \<Rightarrow> yaml" where
  "mergeValue (Mapping a) (Mapping b) =
     Mapping (filter (\<lambda>(k, old). k \<notin> fst ` set b) a @
              map (\<lambda>(k, v). (k, case map_of a k of None \<Rightarrow> v | Some old \<Rightarrow> mergeValue old v)) b)"
| "mergeValue base override = override"

text \<open>
  Modelled from the spec: a config reference, "a path, plus an optional remote
  repository and exactly one of branch, tag, commit".
\<close>

record ConfigReference =
  refPath :: string
  refRepository :: string
  refBranch :: string
  refTag :: string
  refCommit :: string

text \<open>
  Modelled from the spec: a parsed fragment, its \<open>include\<close> list and its own keys
  (everything except \<open>include\<close>).
\<close>

record Fragment =
  includeRefs :: "ConfigReference list"
  ownKeys :: yaml

text \<open>
  Modelled from the spec: the external collaborators of one composition run. The
  content reader returns the raw bytes of a reference or the message of a fetch error;
  the parser reads a fragment off the bytes; \<open>resolveRef parent r\<close> is the canonical
  identity of the reference \<open>r\<close> as written in the file \<open>parent\<close> (a reference
  without repository is relative to the directory of its including file).
\<close>

record Env =
  resolveRef :: "ConfigReference \<Rightarrow> ConfigReference \<Rightarrow> ConfigReference"
  readRef :: "ConfigReference \<Rightarrow> string + string"
  parseFragment :: "string \<Rightarrow> Fragment option"

text \<open>
  Modelled from the spec: the part of the merge state that outlives a recursive call,
  the number of files loaded and the references incorporated. The visited chain and
  the depth are arguments of the recursion: pushed for the includes of a file, popped
  on return.
\<close>

record MergeState =
  filesLoaded :: nat
  provenance :: "ConfigReference list"

text \<open>Modelled from the spec: the limit of section 6, "max inclusion depth 5".\<close>

definition MaxIncludeDepth :: nat where
  "MaxIncludeDepth = 5"

text \<open>
  Modelled from the spec: the limit of section 6, "max total files per composition 20".
\<close>

definition MaxFilesCountTotal :: nat where
  "MaxFilesCountTotal = 20"

text \<open>
  Modelled from the spec: the limit of section 6, "max file size 1,048,576 bytes" (the
  constant \<open>MaxFileSizeBytes\<close> of the tests).
\<close>

definition MaxFileSizeBytes :: nat where
  "MaxFileSizeBytes = 1048576"

text \<open>
  Modelled from the spec: the limit of section 6, "max includes per file 10" (the
  constant \<open>MaxIncludeCountPerFile\<close> of the tests).
\<close>

definition MaxIncludeCountPerFile :: nat where
  "MaxIncludeCountPerFile = 10"

text \<open>
  Modelled from the spec: the failures of section 4.5. A limit error carries the limit,
  the cycle error the chain.
\<close>

datatype MergeError =
    CircularReference "ConfigReference list"
  | MaxIncludeDepthExceeded nat
  | MaxFilesCountExceeded nat
  | MaxFileSizeExceeded nat ConfigReference
  | MaxIncludeCountExceeded nat
  | FetchError string
  | ParseError ConfigReference

text \<open>
  Modelled from the spec: the rendering of a chain with a separator between its
  elements (\<open>a -> b -> c\<close>), for the message of the cycle error.
\<close>

fun joinWith :: "string \<Rightarrow> string list \<Rightarrow> string" where
  "joinWith sep [] = []"
| "joinWith sep [x] = x"
| "joinWith sep (x # y # rest) = x @ sep @ joinWith sep (y # rest)"

text \<open>
  Modelled from the spec: the message of a limit or cycle error, worded as the tests of
  the repository expect it; a reference is shown by its path. The wording of fetch and
  parse errors is not fixed by the specification.
\<close>

fun limitMessage :: "MergeError \<Rightarrow> string option" where
  "limitMessage (CircularReference chain) =
     Some (''circular reference detected: '' @ joinWith '' -> '' (map refPath chain))"
| "limitMessage (MaxIncludeDepthExceeded n) =
     Some (''max include depth ('' @ showNat n @ '') exceeded'')"
| "limitMessage (MaxFilesCountExceeded n) =
     Some (''max file count ('' @ showNat n @ '') exceeded'')"
| "limitMessage (MaxFileSizeExceeded n r) =
     Some (''max file size ('' @ showNat n @ '' bytes) exceeded in file '' @ refPath r)"
| "limitMessage (MaxIncludeCountExceeded n) =
     Some (''max include count ('' @ showNat n @ '') exceeded'')"
| "limitMessage (FetchError e) = None"
| "limitMessage (ParseError r) = None"

text \<open>
  Modelled from the spec: the recursive descent of section 4.5. \<open>mergeReference\<close>
  resolves one reference at the given depth under the given visited chain, in the order
  of the steps 1 to 5: cycle check, depth check, file count check, fetch, size check,
  parse, include count check, the includes in listed order, and last the fragment's own
  keys on top. \<open>mergeIncludes\<close> merges the sub-documents of an include list into the
  accumulator, in listed order; the first failure ends the run.

  The cycle error carries the visited chain followed by the repeated reference, as in
  the example \<open>a -> b -> c -> b\<close> of step 1 and in the repository's cycle test. The
  root has depth 0 and a reference at depth \<open>MaxIncludeDepth\<close> is refused: this is
  the boundary of section 8 ("a 6-level-deep chain (root + 5 includes nested) fails at
  the 6th; a 5-level chain succeeds") and of the repository's test "Max include depth is
  5", while the wording of step 2 ("depth exceeds ... 5 levels beyond the root") would
  admit one level more. A file counts as loaded each time it is fetched, as in the
  repository's test "Max 20 config files are allowed".
\<close>

function mergeReference ::
  "Env \<Rightarrow> nat \<Rightarrow> ConfigReference list \<Rightarrow> MergeState \<Rightarrow> ConfigReference \<Rightarrow>
   MergeError + (yaml \<times> MergeState)"
and mergeIncludes ::
  "Env \<Rightarrow> nat \<Rightarrow> ConfigReference list \<Rightarrow> ConfigReference \<Rightarrow> MergeState \<Rightarrow> yaml \<Rightarrow>
   ConfigReference list \<Rightarrow> MergeError + (yaml \<times> MergeState)" where
  "mergeReference env depth chain st r =
     (if r \<in> set chain then Inl (CircularReference (chain @ [r]))
      else if MaxIncludeDepth \<le> depth then Inl (MaxIncludeDepthExceeded MaxIncludeDepth)
      else if MaxFilesCountTotal < filesLoaded st + 1
        then Inl (MaxFilesCountExceeded MaxFilesCountTotal)
      else
        (case readRef env r of
           Inl e \<Rightarrow> Inl (FetchError e)
         | Inr bytes \<Rightarrow>
             if MaxFileSizeBytes < length bytes
             then Inl (MaxFileSizeExceeded MaxFileSizeBytes r)
             else
               (case parseFragment env bytes of
                  None \<Rightarrow> Inl (ParseError r)
                | Some fragment \<Rightarrow>
                    if MaxIncludeCountPerFile < length (includeRefs fragment)
                    then Inl (MaxIncludeCountExceeded MaxIncludeCountPerFile)
                    else
                      (case mergeIncludes env (depth + 1) (chain @ [r]) r
                              (st \<lparr> filesLoaded := filesLoaded st + 1,
                                    provenance := provenance st @ [r] \<rparr>)
                              (Mapping []) (includeRefs fragment) of
                         Inl e \<Rightarrow> Inl e
                       | Inr (acc, st') \<Rightarrow> Inr (mergeValue acc (ownKeys fragment), st')))))"
| "mergeIncludes env depth chain parent st acc [] = Inr (acc, st)"
| "mergeIncludes env depth chain parent st acc (inc # rest) =
     (case mergeReference env depth chain st (resolveRef env parent inc) of
        Inl e \<Rightarrow> Inl e
      | Inr (sub, st') \<Rightarrow> mergeIncludes env depth chain parent st' (mergeValue acc sub) rest)"
  by pat_completeness auto
termination
  by (relation "measures
        [\<lambda>x. case x of Inl (env, depth, chain, st, r) \<Rightarrow> MaxIncludeDepth + 1 - depth
                      | Inr (env, depth, chain, parent, st, acc, incs) \<Rightarrow>
                          MaxIncludeDepth + 1 - depth,
         \<lambda>x. case x of Inl (env, depth, chain, st, r) \<Rightarrow> 0
                      | Inr (env, depth, chain, parent, st, acc, incs) \<Rightarrow> Suc (length incs)]")
     auto

declare mergeReference.simps [simp del]

text \<open>
  Modelled from the spec: the root call, at depth 0 with an empty chain and a fresh
  merge state. It returns the merged document and the distinct references
  incorporated. The serialisation of the document to text is left out.
\<close>

definition mergeConfig ::
  "Env \<Rightarrow> ConfigReference \<Rightarrow> MergeError + (yaml \<times> ConfigReference list)" where
  "mergeConfig env root =
     (case mergeReference env 0 [] \<lparr> filesLoaded = 0, provenance = [] \<rparr> root of
        Inl e \<Rightarrow> Inl e
      | Inr (doc, st) \<Rightarrow> Inr (doc, remdups (provenance st)))"

text \<open>
  The include graph of an environment: \<open>includeEdge env r r'\<close> when the file of \<open>r\<close>
  can be read and parsed and its include list names \<open>r'\<close>.
\<close>

definition includeEdge :: "Env \<Rightarrow> ConfigReference \<Rightarrow> ConfigReference \<Rightarrow> bool" where
  "includeEdge env r r' =
     (case readRef env r of
        Inl e \<Rightarrow> False
      | Inr bytes \<Rightarrow>
          (case parseFragment env bytes of
             None \<Rightarrow> False
           | Some fragment \<Rightarrow> r' \<in> resolveRef env r ` set (includeRefs fragment)))"

text \<open>
  Predicates for the properties of a run. A file is within the per-file limits when it
  can be read and parsed, holds at most \<open>MaxFileSizeBytes\<close> bytes and lists at most
  \<open>MaxIncludeCountPerFile\<close> includes.
\<close>

definition withinFileLimits :: "Env \<Rightarrow> ConfigReference \<Rightarrow> bool" where
  "withinFileLimits env r =
     (case readRef env r of
        Inl e \<Rightarrow> False
      | Inr bytes \<Rightarrow>
          length bytes \<le> MaxFileSizeBytes \<and>
          (case parseFragment env bytes of
             None \<Rightarrow> False
           | Some fragment \<Rightarrow> length (includeRefs fragment) \<le> MaxIncludeCountPerFile))"

text \<open>
  From the merge state \<open>st\<close> to \<open>st'\<close> the run has loaded new files only: the
  provenance grew by as many references as the count of loaded files, each of them
  within the per-file limits, and the count stayed within \<open>MaxFilesCountTotal\<close> if it
  was before.
\<close>

definition loadedWithinLimits :: "Env \<Rightarrow> MergeState \<Rightarrow> MergeState \<Rightarrow> bool" where
  "loadedWithinLimits env st st' =
     ((\<exists>new. provenance st' = provenance st @ new \<and>
             filesLoaded st' = filesLoaded st + length new \<and>
             list_all (withinFileLimits env) new) \<and>
      (filesLoaded st \<le> MaxFilesCountTotal \<longrightarrow> filesLoaded st' \<le> MaxFilesCountTotal))"

text \<open>
  The chain \<open>c\<close> of a cycle error raised under the visited chain \<open>chain\<close> at the
  reference \<open>r\<close> names the visited chain in traversal order: it goes on from
  \<open>chain\<close> and \<open>r\<close>, every reference includes the next one, the references before
  the last are distinct, and the last one repeats one of them.
\<close>

definition namesVisitedChain ::
  "Env \<Rightarrow> ConfigReference list \<Rightarrow> ConfigReference \<Rightarrow> ConfigReference list \<Rightarrow> bool" where
  "namesVisitedChain env chain r c =
     ((\<exists>rest. c = chain @ r # rest) \<and> distinct (butlast c) \<and> last c \<in> set (butlast c) \<and>
      successively (includeEdge env) c)"

text \<open>
  The include graph seen from one file: the references that the file of \<open>r\<close> lists,
  resolved against \<open>r\<close>, in listed order and with repetitions; none when the file
  cannot be read or parsed.
\<close>

definition children :: "Env \<Rightarrow> ConfigReference \<Rightarrow> ConfigReference list" where
  "children env r =
     (case readRef env r of
        Inl e \<Rightarrow> []
      | Inr bytes \<Rightarrow>
          (case parseFragment env bytes of
             None \<Rightarrow> []
           | Some fragment \<Rightarrow> map (resolveRef env r) (includeRefs fragment)))"

text \<open>
  The file loads of the subtree of \<open>r\<close> in traversal order, followed \<open>n\<close> levels
  below \<open>r\<close>: the reference itself, then the loads of each of its includes, in listed
  order. A file that is reached several times is listed every time it is reached.
\<close>

fun loadList :: "Env \<Rightarrow> nat \<Rightarrow> ConfigReference \<Rightarrow> ConfigReference list" where
  "loadList env 0 r = [r]"
| "loadList env (Suc n) r = r # concat (map (loadList env n) (children env r))"

text \<open>The merge state after the references \<open>refs\<close> have been loaded, in this order.\<close>

definition advance :: "MergeState \<Rightarrow> ConfigReference list \<Rightarrow> MergeState" where
  "advance st refs =
     st \<lparr> filesLoaded := filesLoaded st + length refs, provenance := provenance st @ refs \<rparr>"

text \<open>
  The subtree of \<open>r\<close>, entered at the given depth under the given visited chain, is
  within the limits: every include path that starts at \<open>r\<close> stays below the depth
  limit, repeats no reference, keeps off the visited chain, and ends in a file within
  the per-file limits. The file count is not part of it.
\<close>

definition subtreeWithinLimits ::
  "Env \<Rightarrow> nat \<Rightarrow> ConfigReference list \<Rightarrow> ConfigReference \<Rightarrow> bool" where
  "subtreeWithinLimits env depth chain r =
     (\<forall>path. successively (includeEdge env) (r # path) \<longrightarrow>
        depth + length path < MaxIncludeDepth \<and> distinct (r # path) \<and>
        set (r # path) \<inter> set chain = {} \<and> withinFileLimits env (last (r # path)))"

text \<open>
  The checks of \<open>mergeReference\<close> on one reference, in its order, up to the point
  where it turns to the includes of the file: the error of the first check that fails,
  or the parsed fragment when all of them pass (lemma \<open>mergeReference_check\<close> below).
\<close>

definition checkReference ::
  "Env \<Rightarrow> nat \<Rightarrow> ConfigReference list \<Rightarrow> MergeState \<Rightarrow> ConfigReference \<Rightarrow>
   MergeError + Fragment" where
  "checkReference env depth chain st r =
     (if r \<in> set chain then Inl (CircularReference (chain @ [r]))
      else if MaxIncludeDepth \<le> depth then Inl (MaxIncludeDepthExceeded MaxIncludeDepth)
      else if MaxFilesCountTotal < filesLoaded st + 1
        then Inl (MaxFilesCountExceeded MaxFilesCountTotal)
      else
        (case readRef env r of
           Inl e \<Rightarrow> Inl (FetchError e)
         | Inr bytes \<Rightarrow>
             if MaxFileSizeBytes < length bytes
             then Inl (MaxFileSizeExceeded MaxFileSizeBytes r)
             else
               (case parseFragment env bytes of
                  None \<Rightarrow> Inl (ParseError r)
                | Some fragment \<Rightarrow>
                    if MaxIncludeCountPerFile < length (includeRefs fragment)
                    then Inl (MaxIncludeCountExceeded MaxIncludeCountPerFile)
                    else Inr fragment)))"

text \<open>
  Where the depth-first traversal from \<open>root\<close> arrives while everything before has
  passed. \<open>descent env root depth chain st r\<close>: the traversal stands at the reference
  \<open>r\<close>, at the given depth, with the visited chain \<open>chain\<close> (the references from the
  root down to the file that includes \<open>r\<close>) and the merge state \<open>st\<close> (the files
  loaded so far). It starts at the root with nothing loaded. From a reference \<open>r\<close>
  that passes its own checks it goes into the include entry \<open>inc\<close> of \<open>r\<close> when
  the subtrees of the entries listed before \<open>inc\<close> are within the limits and the
  loads so far, \<open>r\<close> and those subtrees included, are within the file count.
\<close>

inductive descent ::
  "Env \<Rightarrow> ConfigReference \<Rightarrow> nat \<Rightarrow> ConfigReference list \<Rightarrow> MergeState \<Rightarrow> ConfigReference \<Rightarrow> bool"
  for env :: Env and root :: ConfigReference where
  atRoot: "descent env root 0 [] \<lparr> filesLoaded = 0, provenance = [] \<rparr> root"
| intoInclude:
    "descent env root depth chain st r \<Longrightarrow>
     checkReference env depth chain st r = Inr fragment \<Longrightarrow>
     includeRefs fragment = before @ inc # after \<Longrightarrow>
     \<forall>b\<in>set before. subtreeWithinLimits env (Suc depth) (chain @ [r]) (resolveRef env r b) \<Longrightarrow>
     loaded = r # concat (map (\<lambda>b. loadList env (MaxIncludeDepth - 2 - depth) (resolveRef env r b))
                           before) \<Longrightarrow>
     filesLoaded st + length loaded \<le> MaxFilesCountTotal \<Longrightarrow>
     descent env root (Suc depth) (chain @ [r]) (advance st loaded) (resolveRef env r inc)"

text \<open>
  \<open>firstInclude env r r'\<close>: the file of \<open>r\<close> is within the per-file limits and its
  first include entry is \<open>r'\<close>.
\<close>

definition firstInclude :: "Env \<Rightarrow> ConfigReference \<Rightarrow> ConfigReference \<Rightarrow> bool" where
  "firstInclude env r r' =
     (withinFileLimits env r \<and> (case children env r of [] \<Rightarrow> False | c # rest \<Rightarrow> c = r'))"

section \<open>Example data\<close>

text \<open>
  A matcher for the examples: the pattern \<open>*\<close> matches every subject, any other
  pattern matches itself only. The examples use the lone \<open>*\<close> and patterns without
  a wildcard, on which this is what a glob matcher answers.
\<close>

definition exampleGlob :: matcher where
  "exampleGlob pattern subj = (pattern = ''*'' \<or> pattern = subj)"

definition legacyItem :: "string \<Rightarrow> bool \<Rightarrow> string \<Rightarrow> TriggerMapItemModel" where
  "legacyItem pat allowed target =
     zeroItem \<lparr> WorkflowID := target, Pattern := pat, IsPullRequestAllowed := allowed \<rparr>"

definition exampleTriggerMap :: "TriggerMapItemModel list" where
  "exampleTriggerMap = [legacyItem ''master'' False ''deploy'', legacyItem ''*'' True ''ci'']"

definition strictTriggerMap :: "TriggerMapItemModel list" where
  "strictTriggerMap = [legacyItem ''master'' False ''deploy'', legacyItem ''dev'' True ''ci'']"




text \<open>
  Environments for the composition examples. A local reference is a path alone. In a
  table environment every file sits in one directory, a file's bytes are a stand-in (its
  own path), and the parser reads the include list and the keys of a file off the table.
\<close>

definition localRef :: "string \<Rightarrow> ConfigReference" where
  "localRef p = \<lparr> refPath = p, refRepository = [], refBranch = [], refTag = [], refCommit = [] \<rparr>"

definition tableEnv :: "(string \<times> string list \<times> yaml) list \<Rightarrow> Env" where
  "tableEnv files =
     \<lparr> resolveRef = (\<lambda>parent r. r),
       readRef = (\<lambda>r. case map_of files (refPath r) of
                         None \<Rightarrow> Inl (''file not found: '' @ refPath r)
                       | Some entry \<Rightarrow> Inr (refPath r)),
       parseFragment = (\<lambda>bytes. case map_of files bytes of
                         None \<Rightarrow> None
                       | Some (incs, keys) \<Rightarrow>
                           Some \<lparr> includeRefs = map localRef incs, ownKeys = keys \<rparr>) \<rparr>"

text \<open>A single file of \<open>n\<close> blanks, which parses to the empty mapping.\<close>

definition blankEnv :: "nat \<Rightarrow> Env" where
  "blankEnv n =
     \<lparr> resolveRef = (\<lambda>parent r. r),
       readRef = (\<lambda>r. Inr (replicate n (CHR '' ''))),
       parseFragment = (\<lambda>bytes. Some \<lparr> includeRefs = [], ownKeys = Mapping [] \<rparr>) \<rparr>"

text \<open>A root that lists the same empty file ten times, and eleven times.\<close>

definition tenIncludesFiles :: "(string \<times> string list \<times> yaml) list" where
  "tenIncludesFiles =
     [(''bitrise.yml'',
       [''path_1.yml'', ''path_1.yml'', ''path_1.yml'', ''path_1.yml'', ''path_1.yml'',
        ''path_1.yml'', ''path_1.yml'', ''path_1.yml'', ''path_1.yml'', ''path_1.yml''],
       Mapping []),
      (''path_1.yml'', [], Mapping [])]"

definition elevenIncludesFiles :: "(string \<times> string list \<times> yaml) list" where
  "elevenIncludesFiles =
     [(''bitrise.yml'',
       [''path_1.yml'', ''path_1.yml'', ''path_1.yml'', ''path_1.yml'', ''path_1.yml'',
        ''path_1.yml'', ''path_1.yml'', ''path_1.yml'', ''path_1.yml'', ''path_1.yml'',
        ''path_1.yml''],
       Mapping []),
      (''path_1.yml'', [], Mapping [])]"

text \<open>
  A root with the ten includes \<open>m1.yml\<close> to \<open>m10.yml\<close>, of which the first nine
  include one more file each: twenty distinct files. With an include in \<open>m10.yml\<close>
  too: twenty-one distinct files.
\<close>

definition includesOfRoot :: "string list" where
  "includesOfRoot =
     [''m1.yml'', ''m2.yml'', ''m3.yml'', ''m4.yml'', ''m5.yml'', ''m6.yml'', ''m7.yml'',
      ''m8.yml'', ''m9.yml'', ''m10.yml'']"

definition twentyFiles :: "(string \<times> string list \<times> yaml) list" where
  "twentyFiles =
     [(''bitrise.yml'', includesOfRoot, Mapping []),
      (''m1.yml'', [''l1.yml''], Mapping []),
      (''m2.yml'', [''l2.yml''], Mapping []),
      (''m3.yml'', [''l3.yml''], Mapping []),
      (''m4.yml'', [''l4.yml''], Mapping []),
      (''m5.yml'', [''l5.yml''], Mapping []),
      (''m6.yml'', [''l6.yml''], Mapping []),
      (''m7.yml'', [''l7.yml''], Mapping []),
      (''m8.yml'', [''l8.yml''], Mapping []),
      (''m9.yml'', [''l9.yml''], Mapping []),
      (''m10.yml'', [], Mapping []),
      (''l1.yml'', [], Mapping []),
      (''l2.yml'', [], Mapping []),
      (''l3.yml'', [], Mapping []),
      (''l4.yml'', [], Mapping []),
      (''l5.yml'', [], Mapping []),
      (''l6.yml'', [], Mapping []),
      (''l7.yml'', [], Mapping []),
      (''l8.yml'', [], Mapping []),
      (''l9.yml'', [], Mapping [])]"

definition twentyOneFiles :: "(string \<times> string list \<times> yaml) list" where
  "twentyOneFiles =
     [(''bitrise.yml'', includesOfRoot, Mapping []),
      (''m1.yml'', [''l1.yml''], Mapping []),
      (''m2.yml'', [''l2.yml''], Mapping []),
      (''m3.yml'', [''l3.yml''], Mapping []),
      (''m4.yml'', [''l4.yml''], Mapping []),
      (''m5.yml'', [''l5.yml''], Mapping []),
      (''m6.yml'', [''l6.yml''], Mapping []),
      (''m7.yml'', [''l7.yml''], Mapping []),
      (''m8.yml'', [''l8.yml''], Mapping []),
      (''m9.yml'', [''l9.yml''], Mapping []),
      (''m10.yml'', [''l10.yml''], Mapping []),
      (''l1.yml'', [], Mapping []),
      (''l2.yml'', [], Mapping []),
      (''l3.yml'', [], Mapping []),
      (''l4.yml'', [], Mapping []),
      (''l5.yml'', [], Mapping []),
      (''l6.yml'', [], Mapping []),
      (''l7.yml'', [], Mapping []),
      (''l8.yml'', [], Mapping []),
      (''l9.yml'', [], Mapping []),
      (''l10.yml'', [], Mapping [])]"

text \<open>
  A root followed by four nested includes, and by five (the files of the repository's
  test "Max include depth is 5", read from one directory).
\<close>

definition fourNestedFiles :: "(string \<times> string list \<times> yaml) list" where
  "fourNestedFiles =
     [(''bitrise.yml'', [''module_1.yml''], Mapping []),
      (''module_1.yml'', [''module_2.yml''], Mapping []),
      (''module_2.yml'', [''module_3.yml''], Mapping []),
      (''module_3.yml'', [''module_4.yml''], Mapping []),
      (''module_4.yml'', [], Mapping [])]"

definition fiveNestedFiles :: "(string \<times> string list \<times> yaml) list" where
  "fiveNestedFiles =
     [(''bitrise.yml'', [''module_1.yml''], Mapping []),
      (''module_1.yml'', [''module_2.yml''], Mapping []),
      (''module_2.yml'', [''module_3.yml''], Mapping []),
      (''module_3.yml'', [''module_4.yml''], Mapping []),
      (''module_4.yml'', [''module_5.yml''], Mapping []),
      (''module_5.yml'', [], Mapping [])]"

text \<open>The three-file cycle, the cycle of the repository's test, and a seven-file cycle.\<close>

definition threeCycleFiles :: "(string \<times> string list \<times> yaml) list" where
  "threeCycleFiles =
     [(''a.yml'', [''b.yml''], Mapping []),
      (''b.yml'', [''c.yml''], Mapping []),
      (''c.yml'', [''a.yml''], Mapping [])]"

definition testCycleFiles :: "(string \<times> string list \<times> yaml) list" where
  "testCycleFiles =
     [(''bitrise.yml'', [''module_1.yml''],
         Mapping [(''format_version'', Scalar ''15''),
                  (''default_step_lib_source'',
                   Scalar ''https://github.com/bitrise-io/bitrise-steplib.git'')]),
      (''module_1.yml'', [''module_2.yml''], Mapping []),
      (''module_2.yml'', [''module_1.yml''], Mapping [])]"

definition sevenCycleFiles :: "(string \<times> string list \<times> yaml) list" where
  "sevenCycleFiles =
     [(''a.yml'', [''b.yml''], Mapping []),
      (''b.yml'', [''c.yml''], Mapping []),
      (''c.yml'', [''d.yml''], Mapping []),
      (''d.yml'', [''e.yml''], Mapping []),
      (''e.yml'', [''f.yml''], Mapping []),
      (''f.yml'', [''g.yml''], Mapping []),
      (''g.yml'', [''a.yml''], Mapping [])]"

text \<open>
  The files of the repository's test "Max 20 config files are allowed": the root lists
  \<open>path_1.yml\<close> ten times, and \<open>path_1.yml\<close> includes \<open>path_2.yml\<close>.
\<close>

definition testFileCountFiles :: "(string \<times> string list \<times> yaml) list" where
  "testFileCountFiles =
     [(''bitrise.yml'',
       [''path_1.yml'', ''path_1.yml'', ''path_1.yml'', ''path_1.yml'', ''path_1.yml'',
        ''path_1.yml'', ''path_1.yml'', ''path_1.yml'', ''path_1.yml'', ''path_1.yml''],
       Mapping []),
      (''path_1.yml'', [''path_2.yml''], Mapping []),
      (''path_2.yml'', [], Mapping [])]"

text \<open>
  The same files with one \<open>path_1.yml\<close> less in the root, and \<open>path_2.yml\<close> in its
  place: twenty loads of three distinct files.
\<close>

definition twentyLoadsFiles :: "(string \<times> string list \<times> yaml) list" where
  "twentyLoadsFiles =
     [(''bitrise.yml'',
       [''path_1.yml'', ''path_1.yml'', ''path_1.yml'', ''path_1.yml'', ''path_1.yml'',
        ''path_1.yml'', ''path_1.yml'', ''path_1.yml'', ''path_1.yml'', ''path_2.yml''],
       Mapping []),
      (''path_1.yml'', [''path_2.yml''], Mapping []),
      (''path_2.yml'', [], Mapping [])]"

text \<open>
  The files of the repository's test "Merges local config module".
\<close>

definition testMergeFiles :: "(string \<times> string list \<times> yaml) list" where
  "testMergeFiles =
     [(''bitrise.yml'', [''containers.yml''],
         Mapping [(''format_version'', Scalar ''15''),
                  (''default_step_lib_source'',
                   Scalar ''https://github.com/bitrise-io/bitrise-steplib.git'')]),
      (''containers.yml'', [],
         Mapping [(''containers'',
                   Mapping [(''golang'', Mapping [(''image'', Scalar ''golang:1.22'')])])])]"

text \<open>
  A root of one byte that includes \<open>big.yml\<close>, a file of \<open>n\<close> blanks; the parser
  tells the root by its length.
\<close>

definition sizedIncludeEnv :: "nat \<Rightarrow> Env" where
  "sizedIncludeEnv n =
     \<lparr> resolveRef = (\<lambda>parent r. r),
       readRef = (\<lambda>r. if refPath r = ''bitrise.yml'' then Inr ''-''
                       else Inr (replicate n (CHR '' ''))),
       parseFragment = (\<lambda>bytes. if length bytes = 1
                          then Some \<lparr> includeRefs = [localRef ''big.yml''], ownKeys = Mapping [] \<rparr>
                          else Some \<lparr> includeRefs = [], ownKeys = Mapping [] \<rparr>) \<rparr>"

text \<open>A root whose only include lists the same empty file eleven times.\<close>

definition nestedElevenFiles :: "(string \<times> string list \<times> yaml) list" where
  "nestedElevenFiles =
     [(''bitrise.yml'', [''module_1.yml''], Mapping []),
      (''module_1.yml'',
       [''path_1.yml'', ''path_1.yml'', ''path_1.yml'', ''path_1.yml'', ''path_1.yml'',
        ''path_1.yml'', ''path_1.yml'', ''path_1.yml'', ''path_1.yml'', ''path_1.yml'',
        ''path_1.yml''],
       Mapping []),
      (''path_1.yml'', [], Mapping [])]"

text \<open>
  Cycles of four and of five files; a cycle that is entered through the second include
  of the root, after a file without includes; and the same cycle behind a file that is
  missing.
\<close>

definition fourCycleFiles :: "(string \<times> string list \<times> yaml) list" where
  "fourCycleFiles =
     [(''a.yml'', [''b.yml''], Mapping []),
      (''b.yml'', [''c.yml''], Mapping []),
      (''c.yml'', [''d.yml''], Mapping []),
      (''d.yml'', [''a.yml''], Mapping [])]"

definition fiveCycleFiles :: "(string \<times> string list \<times> yaml) list" where
  "fiveCycleFiles =
     [(''a.yml'', [''b.yml''], Mapping []),
      (''b.yml'', [''c.yml''], Mapping []),
      (''c.yml'', [''d.yml''], Mapping []),
      (''d.yml'', [''e.yml''], Mapping []),
      (''e.yml'', [''a.yml''], Mapping [])]"

definition siblingCycleFiles :: "(string \<times> string list \<times> yaml) list" where
  "siblingCycleFiles =
     [(''a.yml'', [''leaf.yml'', ''b.yml''], Mapping []),
      (''leaf.yml'', [], Mapping []),
      (''b.yml'', [''a.yml''], Mapping [])]"

definition hiddenCycleFiles :: "(string \<times> string list \<times> yaml) list" where
  "hiddenCycleFiles =
     [(''a.yml'', [''missing.yml'', ''b.yml''], Mapping []),
      (''b.yml'', [''a.yml''], Mapping [])]"

section \<open>Properties of the event classifier\<close>

text \<open>
  C2. The classifier follows the priority order: a non-empty push branch gives an error
  when a pull-request branch or the tag is non-empty too, and code-push otherwise; else a
  non-empty pull-request source or target branch gives an error when the tag is non-empty
  too, and pull-request otherwise; else a non-empty tag gives tag; else an error. The
  theorem gives the returned event type together with whether the error is non-nil.
\<close>

theorem triggerEventType_priority_order:
  "(case triggerEventType pushBranch prSourceBranch prTargetBranch tag of
      (eventType, err) \<Rightarrow> (eventType, err \<noteq> None)) =
     (if pushBranch \<noteq> [] then
        if prSourceBranch \<noteq> [] \<or> prTargetBranch \<noteq> [] \<or> tag \<noteq> []
        then (TriggerEventTypeUnknown, True)
        else (TriggerEventTypeCodePush, False)
      else if prSourceBranch \<noteq> [] \<or> prTargetBranch \<noteq> [] then
        if tag \<noteq> [] then (TriggerEventTypeUnknown, True)
        else (TriggerEventTypePullRequest, False)
      else if tag \<noteq> [] then (TriggerEventTypeTag, False)
      else (TriggerEventTypeUnknown, True))"
  by (simp add: triggerEventType_def)

theorem triggerEventType_priority_order_witness:
  "(case triggerEventType ''main'' [] [] [] of (eventType, err) \<Rightarrow> (eventType, err \<noteq> None))
     = (TriggerEventTypeCodePush, False) \<and>
   (case triggerEventType ''main'' [] [] ''v1'' of (eventType, err) \<Rightarrow> (eventType, err \<noteq> None))
     = (TriggerEventTypeUnknown, True) \<and>
   (case triggerEventType [] ''feature'' [] [] of (eventType, err) \<Rightarrow> (eventType, err \<noteq> None))
     = (TriggerEventTypePullRequest, False) \<and>
   (case triggerEventType [] [] ''main'' ''v1'' of (eventType, err) \<Rightarrow> (eventType, err \<noteq> None))
     = (TriggerEventTypeUnknown, True) \<and>
   (case triggerEventType [] [] [] ''v1'' of (eventType, err) \<Rightarrow> (eventType, err \<noteq> None))
     = (TriggerEventTypeTag, False) \<and>
   (case triggerEventType [] [] [] [] of (eventType, err) \<Rightarrow> (eventType, err \<noteq> None))
     = (TriggerEventTypeUnknown, True)"
  using triggerEventType_priority_order [of "''main''" "[]" "[]" "[]"]
        triggerEventType_priority_order [of "''main''" "[]" "[]" "''v1''"]
        triggerEventType_priority_order [of "[]" "''feature''" "[]" "[]"]
        triggerEventType_priority_order [of "[]" "[]" "''main''" "''v1''"]
        triggerEventType_priority_order [of "[]" "[]" "[]" "''v1''"]
        triggerEventType_priority_order [of "[]" "[]" "[]" "[]"]
  by simp

text \<open>
  C9. The classifier returns a non-nil error exactly when it returns the unknown event
  type: code-push, pull-request and tag never come with an error, unknown never comes
  without one.
\<close>

theorem triggerEventType_error_iff_unknown:
  "(snd (triggerEventType pushBranch prSourceBranch prTargetBranch tag) \<noteq> None) =
   (fst (triggerEventType pushBranch prSourceBranch prTargetBranch tag) = TriggerEventTypeUnknown)"
  by (simp add: triggerEventType_def)

theorem triggerEventType_error_iff_unknown_witness:
  "(snd (triggerEventType ''main'' ''feature'' [] []) \<noteq> None) =
   (fst (triggerEventType ''main'' ''feature'' [] []) = TriggerEventTypeUnknown) \<and>
   fst (triggerEventType ''main'' ''feature'' [] []) = TriggerEventTypeUnknown \<and>
   (snd (triggerEventType [] [] [] ''v1'') \<noteq> None) =
   (fst (triggerEventType [] [] [] ''v1'') = TriggerEventTypeUnknown) \<and>
   fst (triggerEventType [] [] [] ''v1'') = TriggerEventTypeTag"
  using triggerEventType_error_iff_unknown [of "''main''" "''feature''" "[]" "[]"]
        triggerEventType_error_iff_unknown [of "[]" "[]" "[]" "''v1''"]
  by (simp add: triggerEventType_def)

section \<open>Properties of MatchWithParams\<close>

lemma matchMigratedItems_literal:
  assumes "\<forall>m\<in>set ms. stringFromTriggerCondition (PushBranch m) \<noteq> None \<and>
             stringFromTriggerCondition (PullRequestSourceBranch m) \<noteq> None \<and>
             stringFromTriggerCondition (PullRequestTargetBranch m) \<noteq> None \<and>
             stringFromTriggerCondition (Tag m) \<noteq> None"
  shows "matchMigratedItems glob t pb sb tb rs tg ms \<noteq> None"
  using assms
proof (induction ms)
  case Nil
  then show ?case by simp
next
  case (Cons m ms)
  from Cons.prems obtain a b c d where conv:
    "stringFromTriggerCondition (PushBranch m) = Some a"
    "stringFromTriggerCondition (PullRequestSourceBranch m) = Some b"
    "stringFromTriggerCondition (PullRequestTargetBranch m) = Some c"
    "stringFromTriggerCondition (Tag m) = Some d"
    by auto
  obtain t' e where kind: "triggerEventType a b c d = (t', e)"
    by (cases "triggerEventType a b c d")
  have rest: "matchMigratedItems glob t pb sb tb rs tg ms \<noteq> None"
    using Cons by simp
  show ?case
    using conv kind rest by (cases e; cases t') (auto simp add: Let_def)
qed

lemma matchMigratedItems_panics:
  assumes "stringFromTriggerCondition (PushBranch m) = None \<or>
           stringFromTriggerCondition (PullRequestSourceBranch m) = None \<or>
           stringFromTriggerCondition (PullRequestTargetBranch m) = None \<or>
           stringFromTriggerCondition (Tag m) = None"
  shows "matchMigratedItems glob t pb sb tb rs tg (m # ms) = None"
  using assms
  by (cases "stringFromTriggerCondition (PushBranch m)";
      cases "stringFromTriggerCondition (PullRequestSourceBranch m)";
      cases "stringFromTriggerCondition (PullRequestTargetBranch m)";
      cases "stringFromTriggerCondition (Tag m)") simp_all

text \<open>
  When \<open>MatchWithParams\<close> panics: exactly when the runtime parameters classify
  without error, the item has no deprecated pattern, and one of the four converted
  condition fields holds something that is neither nil nor a string. A legacy item
  never panics, since migration writes string conditions only.
\<close>

lemma MatchWithParams_panics_iff:
  "MatchWithParams glob item pushBranch prSourceBranch prTargetBranch prReadyState tag = None \<longleftrightarrow>
     snd (triggerEventType pushBranch prSourceBranch prTargetBranch tag) = None \<and>
     Pattern item = [] \<and>
     (stringFromTriggerCondition (PushBranch item) = None \<or>
      stringFromTriggerCondition (PullRequestSourceBranch item) = None \<or>
      stringFromTriggerCondition (PullRequestTargetBranch item) = None \<or>
      stringFromTriggerCondition (Tag item) = None)"
proof -
  obtain t e where kind: "triggerEventType pushBranch prSourceBranch prTargetBranch tag = (t, e)"
    by (cases "triggerEventType pushBranch prSourceBranch prTargetBranch tag")
  show ?thesis
  proof (cases e)
    case (Some err)
    with kind show ?thesis by (simp add: MatchWithParams_def)
  next
    case None
    show ?thesis
    proof (cases "Pattern item = []")
      case True
      have run: "MatchWithParams glob item pushBranch prSourceBranch prTargetBranch prReadyState tag
                 = matchMigratedItems glob t pushBranch prSourceBranch prTargetBranch
                     prReadyState tag [item]"
        using kind None True by (simp add: MatchWithParams_def)
      show ?thesis
      proof (cases "stringFromTriggerCondition (PushBranch item) = None \<or>
          stringFromTriggerCondition (PullRequestSourceBranch item) = None \<or>
          stringFromTriggerCondition (PullRequestTargetBranch item) = None \<or>
          stringFromTriggerCondition (Tag item) = None")
        case True
        with run matchMigratedItems_panics [OF True] kind None \<open>Pattern item = []\<close>
        show ?thesis by simp
      next
        case False
        then have "matchMigratedItems glob t pushBranch prSourceBranch prTargetBranch
                     prReadyState tag [item] \<noteq> None"
          by (intro matchMigratedItems_literal) simp
        with run have "MatchWithParams glob item pushBranch prSourceBranch prTargetBranch
                         prReadyState tag \<noteq> None"
          by (simp del: matchMigratedItems.simps)
        with False show ?thesis by blast
      qed
    next
      case False
      have "matchMigratedItems glob t pushBranch prSourceBranch prTargetBranch prReadyState tag
              (migrateDeprecatedTriggerItem item) \<noteq> None"
        by (rule matchMigratedItems_literal)
           (simp add: migrateDeprecatedTriggerItem_def zeroItem_def)
      with False kind None show ?thesis
        by (simp add: MatchWithParams_def)
    qed
  qed
qed

text \<open>
  C1. The claim: matching never aborts, also for a rule whose condition holds a regex
  value. The code: for an explicitly typed code-push rule whose \<open>push_branch\<close> is a
  regex value, a rule that \<open>Validate\<close> accepts, the call panics in
  \<open>stringFromTriggerCondition\<close> instead of returning a pair.
\<close>

theorem MatchWithParams_regex_condition_panics:
  "MatchWithParams glob
     (zeroItem \<lparr> Type := CodePushType, Enabled := True, WorkflowID := ''ci'',
                 PushBranch := RegexValue ''^main$'' \<rparr>)
     ''main'' [] [] [] [] = None"
  by (simp add: MatchWithParams_def zeroItem_def triggerEventType_def)

lemma regex_item_is_valid:
  "Validate (zeroItem \<lparr> Type := CodePushType, Enabled := True, WorkflowID := ''ci'',
                        PushBranch := RegexValue ''^main$'' \<rparr>) 0 [''ci''] [] = ([], None)"
  by (simp add: Validate_def validateTarget_def zeroItem_def CodePushType_def
        validateTypeOfItemWithExplicitType_def validateConditionValuesOfItemWithExplicitType_def
        validateNoTagPushConditionsSet_def validateNoPullRequestConditionsSet_def
        validateStringOrRegexType_def orElse_def isStringLiteralOrRegexSet_def
        IsDraftPullRequestEnabled_def defaultDraftPullRequestEnabled_def)




text \<open>
  A legacy item on a push event matches by its pattern; on a pull-request event that
  names a source branch only, it matches when pull requests are allowed, the pattern
  matches the source branch, and the state is not \<open>converted_to_ready_for_review\<close>.
\<close>

lemma MatchWithParams_legacy_push:
  assumes "Pattern item \<noteq> []" and "pushBranch \<noteq> []"
  shows "MatchWithParams glob item pushBranch [] [] prReadyState [] =
           Some (glob (Pattern item) pushBranch, None)"
  using assms
  by (simp add: MatchWithParams_def triggerEventType_def migrateDeprecatedTriggerItem_def
        zeroItem_def)

lemma MatchWithParams_legacy_pull_request:
  assumes "Pattern item \<noteq> []" and "prSourceBranch \<noteq> []"
  shows "MatchWithParams glob item [] prSourceBranch [] prReadyState [] =
           Some (IsPullRequestAllowed item \<and> glob (Pattern item) prSourceBranch \<and>
                 prReadyState \<noteq> PullRequestReadyStateConvertedToReadyForReview, None)"
  using assms
  by (simp add: MatchWithParams_def triggerEventType_def migrateDeprecatedTriggerItem_def
        zeroItem_def IsDraftPullRequestEnabled_def defaultDraftPullRequestEnabled_def)

text \<open>
  For a legacy item, a non-empty runtime pattern and a state other than
  \<open>converted_to_ready_for_review\<close>, the match of the resolution by pattern (the pattern
  matches and, in pull-request mode, pull requests are allowed) is the match of
  \<open>MatchWithParams\<close> on the push event, or in pull-request mode on the pull-request
  event, whose branch is the pattern.
\<close>

lemma legacy_match_agrees:
  assumes "Pattern item \<noteq> []" and "pattern \<noteq> []"
    and "prReadyState \<noteq> PullRequestReadyStateConvertedToReadyForReview"
  shows "(glob (Pattern item) pattern \<and> (isPullRequestMode \<longrightarrow> IsPullRequestAllowed item)) =
         (MatchWithParams glob item (if isPullRequestMode then [] else pattern)
            (if isPullRequestMode then pattern else []) [] prReadyState [] = Some (True, None))"
  using assms
  by (cases isPullRequestMode)
     (auto simp add: MatchWithParams_legacy_push MatchWithParams_legacy_pull_request)

section \<open>Properties of the legacy migration\<close>

text \<open>
  What the migration yields: one push-branch rule carrying the pattern, followed, when
  pull requests are allowed, by one pull-request-source-branch rule carrying the same
  pattern. Both carry the workflow id of the original; every other field is the zero
  value.
\<close>

lemma migrateDeprecatedTriggerItem_shape:
  "migrateDeprecatedTriggerItem item =
     (if IsPullRequestAllowed item
      then [zeroItem \<lparr> WorkflowID := WorkflowID item, PushBranch := StringValue (Pattern item) \<rparr>,
            zeroItem \<lparr> WorkflowID := WorkflowID item,
                        PullRequestSourceBranch := StringValue (Pattern item) \<rparr>]
      else [zeroItem \<lparr> WorkflowID := WorkflowID item, PushBranch := StringValue (Pattern item) \<rparr>])"
  by (simp add: migrateDeprecatedTriggerItem_def zeroItem_def)

lemma migrateDeprecatedTriggerItem_length:
  "length (migrateDeprecatedTriggerItem item) = (if IsPullRequestAllowed item then 2 else 1)"
  by (simp add: migrateDeprecatedTriggerItem_def)

text \<open>
  C5. The claim: the migrated rules have the same target as the original rule. The code:
  a legacy rule whose target is a pipeline, a rule that \<open>Validate\<close> accepts, migrates
  to two rules with neither a pipeline nor a workflow.
\<close>

theorem migrateDeprecatedTriggerItem_loses_pipeline:
  "map (\<lambda>m. (PipelineID m, WorkflowID m))
     (migrateDeprecatedTriggerItem
        (zeroItem \<lparr> PipelineID := ''release'', Pattern := ''master'',
                    IsPullRequestAllowed := True \<rparr>)) = [([], []), ([], [])]"
  by (simp add: migrateDeprecatedTriggerItem_def zeroItem_def)

lemma legacy_pipeline_item_is_valid:
  "Validate (zeroItem \<lparr> PipelineID := ''release'', Pattern := ''master'',
                    IsPullRequestAllowed := True \<rparr>) 0 [] [''release''] = ([], None)"
  by (simp add: Validate_def validateTarget_def zeroItem_def
        validateTypeOfLegacyItem_def validateNoCodePushConditionsSet_def
        validateNoTagPushConditionsSet_def validateNoPullRequestConditionsSet_def
        orElse_def isStringLiteralOrRegexSet_def
        IsDraftPullRequestEnabled_def defaultDraftPullRequestEnabled_def)

section \<open>Properties of the validation\<close>

lemma orElse_None_iff: "orElse e rest = None \<longleftrightarrow> e = None \<and> rest = None"
  by (cases e) (simp_all add: orElse_def)

lemma validateStringType_regex: "validateStringType idx field (RegexValue r) \<noteq> None"
  by (simp add: validateStringType_def)

text \<open>
  An untyped modern rule is rejected when one of \<open>push_branch\<close>, \<open>tag\<close>,
  \<open>pull_request_source_branch\<close> or \<open>pull_request_target_branch\<close> holds a regex value.
\<close>

lemma Validate_untyped_rejects_regex_in_branch_or_tag:
  assumes "Pattern item = []" and "Type item = []"
    and "PushBranch item = RegexValue r \<or> Tag item = RegexValue r \<or>
         PullRequestSourceBranch item = RegexValue r \<or>
         PullRequestTargetBranch item = RegexValue r"
  shows "snd (Validate item idx workflows pipelines) \<noteq> None"
proof -
  have "validateConditionValuesOfItem item idx \<noteq> None"
    using assms(3) validateStringType_regex
    by (auto simp add: validateConditionValuesOfItem_def orElse_None_iff)
  then have "orElse (validateTypeOfItem item idx) (validateConditionValuesOfItem item idx) \<noteq> None"
    by (simp add: orElse_None_iff)
  then show ?thesis
    using assms(1,2)
    by (cases "validateTarget item idx workflows pipelines")
       (auto simp add: Validate_def split: option.splits)
qed

text \<open>
  C6. The claim: an untyped modern rule is rejected whenever any condition value is a
  regex value, whichever field holds it. The code: \<open>validateConditionValuesOfItem\<close>
  looks at four fields only; an untyped push-branch rule whose \<open>commit_message\<close> is a
  regex value passes validation with no error and no warning.
\<close>

theorem Validate_untyped_accepts_regex_commit_message:
  "Validate (zeroItem \<lparr> WorkflowID := ''ci'', PushBranch := StringValue ''main'',
                        CommitMessage := RegexValue ''^fix'' \<rparr>) 0 [''ci''] [] = ([], None)"
  by (simp add: Validate_def validateTarget_def zeroItem_def
        validateTypeOfItem_def validateConditionValuesOfItem_def
        validateNoTagPushConditionsSet_def validateNoPullRequestConditionsSet_def
        validateStringType_def orElse_def isStringLiteralOrRegexSet_def
        IsDraftPullRequestEnabled_def defaultDraftPullRequestEnabled_def)

text \<open>
  The same holds for \<open>changed_files\<close> on a push-branch rule and for
  \<open>pull_request_label\<close> on a pull-request rule. The validation of an explicitly typed
  rule checks the dynamic type of all seven condition fields.
\<close>

lemma Validate_untyped_accepts_regex_changed_files_and_label:
  "Validate (zeroItem \<lparr> WorkflowID := ''ci'', PushBranch := StringValue ''main'',
                        ChangedFiles := RegexValue ''^docs/'' \<rparr>) 0 [''ci''] [] = ([], None)"
  "Validate (zeroItem \<lparr> WorkflowID := ''ci'', PullRequestSourceBranch := StringValue ''feature'',
                        PullRequestLabel := RegexValue ''^ci-'' \<rparr>) 0 [''ci''] [] = ([], None)"
  by (simp_all add: Validate_def validateTarget_def zeroItem_def
        validateTypeOfItem_def validateConditionValuesOfItem_def
        validateNoTagPushConditionsSet_def validateNoPullRequestConditionsSet_def
        validateNoCodePushConditionsSet_def
        validateStringType_def orElse_def isStringLiteralOrRegexSet_def
        IsDraftPullRequestEnabled_def defaultDraftPullRequestEnabled_def)

lemma Validate_explicit_type_checks_commit_message:
  "snd (Validate (zeroItem \<lparr> Type := CodePushType, WorkflowID := ''ci'',
                        PushBranch := StringValue ''main'',
                        CommitMessage := OtherValue \<rparr>) 0 [''ci''] []) =
     Some ''string literal or regex value is expected for commit_message in the 1. trigger item''"
  by (simp add: Validate_def validateTarget_def zeroItem_def CodePushType_def
        validateTypeOfItemWithExplicitType_def validateConditionValuesOfItemWithExplicitType_def
        validateNoTagPushConditionsSet_def validateNoPullRequestConditionsSet_def
        validateStringOrRegexType_def orElse_def isStringLiteralOrRegexSet_def
        IsDraftPullRequestEnabled_def defaultDraftPullRequestEnabled_def
        ordinal_def showInt_def)

section \<open>Properties of the resolution by pattern\<close>

text \<open>
  A rule matches an event (the pattern and the pull-request mode) when its pattern
  matches and, in pull-request mode, it allows pull requests. The loop returns a
  workflow exactly when the list splits into rules that do not match, a rule that
  matches, and the rest; it returns that rule's workflow.
\<close>

lemma workflowLoop_returns_iff:
  "workflowLoop glob pattern pr flag triggerMap = (w, None) \<longleftrightarrow>
     (\<exists>before item after. triggerMap = before @ item # after \<and>
        (\<forall>x\<in>set before. \<not> (glob (Pattern x) pattern \<and> (pr \<longrightarrow> IsPullRequestAllowed x))) \<and>
        glob (Pattern item) pattern \<and> (pr \<longrightarrow> IsPullRequestAllowed item) \<and>
        w = WorkflowID item)"
proof (induction triggerMap arbitrary: flag)
  case Nil
  then show ?case by simp
next
  case (Cons a rest)
  show ?case
  proof (cases "glob (Pattern a) pattern \<and> (pr \<longrightarrow> IsPullRequestAllowed a)")
    case True
    have "\<exists>before item after. a # rest = before @ item # after \<and>
        (\<forall>x\<in>set before. \<not> (glob (Pattern x) pattern \<and> (pr \<longrightarrow> IsPullRequestAllowed x))) \<and>
        glob (Pattern item) pattern \<and> (pr \<longrightarrow> IsPullRequestAllowed item) \<and>
        w = WorkflowID item" if "w = WorkflowID a"
      using that True by (intro exI [of _ "[]"] exI [of _ a] exI [of _ rest]) simp
    moreover have "w = WorkflowID a"
      if "a # rest = before @ item # after"
        and "\<forall>x\<in>set before. \<not> (glob (Pattern x) pattern \<and> (pr \<longrightarrow> IsPullRequestAllowed x))"
        and "w = WorkflowID item" for before item after
      using that True by (cases before) auto
    ultimately show ?thesis using True by auto
  next
    case False
    then have step: "workflowLoop glob pattern pr flag (a # rest) =
        workflowLoop glob pattern pr (flag \<or> glob (Pattern a) pattern) rest"
      by auto
    have "(\<exists>before item after. a # rest = before @ item # after \<and>
        (\<forall>x\<in>set before. \<not> (glob (Pattern x) pattern \<and> (pr \<longrightarrow> IsPullRequestAllowed x))) \<and>
        glob (Pattern item) pattern \<and> (pr \<longrightarrow> IsPullRequestAllowed item) \<and>
        w = WorkflowID item) \<longleftrightarrow>
      (\<exists>before item after. rest = before @ item # after \<and>
        (\<forall>x\<in>set before. \<not> (glob (Pattern x) pattern \<and> (pr \<longrightarrow> IsPullRequestAllowed x))) \<and>
        glob (Pattern item) pattern \<and> (pr \<longrightarrow> IsPullRequestAllowed item) \<and>
        w = WorkflowID item)" (is "?L \<longleftrightarrow> ?R")
    proof
      assume ?L
      then obtain before item after where h: "a # rest = before @ item # after"
        "\<forall>x\<in>set before. \<not> (glob (Pattern x) pattern \<and> (pr \<longrightarrow> IsPullRequestAllowed x))"
        "glob (Pattern item) pattern" "pr \<longrightarrow> IsPullRequestAllowed item" "w = WorkflowID item"
        by blast
      show ?R
      proof (cases before)
        case Nil
        with h False show ?thesis by auto
      next
        case (Cons b before')
        with h show ?thesis by (intro exI [of _ before'] exI [of _ item] exI [of _ after]) auto
      qed
    next
      assume ?R
      then obtain before item after where h: "rest = before @ item # after"
        "\<forall>x\<in>set before. \<not> (glob (Pattern x) pattern \<and> (pr \<longrightarrow> IsPullRequestAllowed x))"
        "glob (Pattern item) pattern" "pr \<longrightarrow> IsPullRequestAllowed item" "w = WorkflowID item"
        by blast
      with False show ?L
        by (intro exI [of _ "a # before"] exI [of _ item] exI [of _ after]) auto
    qed
    with step Cons.IH [of "flag \<or> glob (Pattern a) pattern"] show ?thesis by simp
  qed
qed

text \<open>
  C4. Resolution returns a workflow exactly when the trigger map is valid and some rule
  matches the event; the workflow returned is that of the first matching rule in list
  order: every rule before it does not match, whatever comes after it. The event is the
  runtime pattern together with the pull-request mode, and a rule matches it when its
  pattern matches and, in pull-request mode, it allows pull requests; this is the match
  that \<open>MatchWithParams\<close> computes for a legacy rule (\<open>legacy_match_agrees\<close>).
\<close>

theorem getWorkflowIDByPattern_first_match:
  "getWorkflowIDByPattern glob triggerMap pattern isPullRequestMode = (w, None) \<longleftrightarrow>
     validateTriggerMap triggerMap = None \<and>
     (\<exists>before item after. triggerMap = before @ item # after \<and>
        (\<forall>x\<in>set before. \<not> (glob (Pattern x) pattern \<and>
                                (isPullRequestMode \<longrightarrow> IsPullRequestAllowed x))) \<and>
        glob (Pattern item) pattern \<and> (isPullRequestMode \<longrightarrow> IsPullRequestAllowed item) \<and>
        w = WorkflowID item)"
proof (cases "validateTriggerMap triggerMap")
  case None
  then show ?thesis
    by (simp add: getWorkflowIDByPattern_def workflowLoop_returns_iff)
next
  case (Some err)
  then show ?thesis by (simp add: getWorkflowIDByPattern_def)
qed

theorem getWorkflowIDByPattern_first_match_witness:
  "getWorkflowIDByPattern exampleGlob exampleTriggerMap ''master'' False = (''deploy'', None) \<and>
   exampleGlob (Pattern (exampleTriggerMap ! 1)) ''master'' \<and>
   validateTriggerMap exampleTriggerMap = None \<and>
   (\<exists>before item after. exampleTriggerMap = before @ item # after \<and>
      (\<forall>x\<in>set before. \<not> (exampleGlob (Pattern x) ''master'' \<and>
                              (False \<longrightarrow> IsPullRequestAllowed x))) \<and>
      exampleGlob (Pattern item) ''master'' \<and> (False \<longrightarrow> IsPullRequestAllowed item) \<and>
      ''deploy'' = WorkflowID item)"
proof -
  have run: "getWorkflowIDByPattern exampleGlob exampleTriggerMap ''master'' False =
               (''deploy'', None)"
    by (simp add: getWorkflowIDByPattern_def exampleTriggerMap_def legacyItem_def zeroItem_def
          exampleGlob_def)
  have later: "exampleGlob (Pattern (exampleTriggerMap ! 1)) ''master''"
    by (simp add: exampleTriggerMap_def legacyItem_def zeroItem_def exampleGlob_def)
  from run later
    getWorkflowIDByPattern_first_match
      [of exampleGlob exampleTriggerMap "''master''" False "''deploy''"]
  show ?thesis by (simp only: simp_thms)
qed

lemma workflowLoop_pull_request_mode:
  "workflowLoop glob pattern True flag triggerMap =
     (case List.find (\<lambda>i. glob (Pattern i) pattern \<and> IsPullRequestAllowed i) triggerMap of
        Some item \<Rightarrow> (WorkflowID item, None)
      | None \<Rightarrow>
          ([], Some (if flag \<or> (\<exists>i\<in>set triggerMap. glob (Pattern i) pattern)
                     then ''Run triggered by pattern: ('' @ pattern @
                          '') in pull request mode, but matching workflow disabled in pull request mode''
                     else ''Run triggered by pattern: ('' @ pattern @
                          ''), but no matching workflow found'')))"
  by (induction triggerMap arbitrary: flag) auto

text \<open>
  C10. In pull-request mode, once the trigger map has passed \<open>validateTriggerMap\<close>, a
  rule whose pattern matches but which does not allow pull requests is passed over: the
  result is the workflow of the first rule whose pattern matches and which allows pull
  requests, also when it comes after such a rule. When there is no such rule, the error
  is the pull-request-mode one if some rule's pattern matched, and the plain
  no-matching-workflow one otherwise.
\<close>

theorem getWorkflowIDByPattern_pull_request_mode:
  "getWorkflowIDByPattern glob triggerMap pattern True =
     (case validateTriggerMap triggerMap of
        Some err \<Rightarrow> ([], Some err)
      | None \<Rightarrow>
          (case List.find (\<lambda>i. glob (Pattern i) pattern \<and> IsPullRequestAllowed i) triggerMap of
             Some item \<Rightarrow> (WorkflowID item, None)
           | None \<Rightarrow>
               ([], Some (if \<exists>i\<in>set triggerMap. glob (Pattern i) pattern
                          then ''Run triggered by pattern: ('' @ pattern @
                               '') in pull request mode, but matching workflow disabled in pull request mode''
                          else ''Run triggered by pattern: ('' @ pattern @
                               ''), but no matching workflow found''))))"
proof (cases "validateTriggerMap triggerMap")
  case None
  then have "getWorkflowIDByPattern glob triggerMap pattern True =
          workflowLoop glob pattern True False triggerMap"
    by (simp add: getWorkflowIDByPattern_def)
  with None show ?thesis
    by (simp only: workflowLoop_pull_request_mode simp_thms option.case)
next
  case (Some err)
  then show ?thesis by (simp add: getWorkflowIDByPattern_def)
qed

theorem getWorkflowIDByPattern_pull_request_mode_witness:
  "getWorkflowIDByPattern exampleGlob exampleTriggerMap ''master'' True = (''ci'', None) \<and>
   getWorkflowIDByPattern exampleGlob strictTriggerMap ''master'' True =
     ([], Some ''Run triggered by pattern: (master) in pull request mode, but matching workflow disabled in pull request mode'') \<and>
   getWorkflowIDByPattern exampleGlob strictTriggerMap ''feature'' True =
     ([], Some ''Run triggered by pattern: (feature), but no matching workflow found'')"
  using getWorkflowIDByPattern_pull_request_mode [of exampleGlob exampleTriggerMap "''master''"]
        getWorkflowIDByPattern_pull_request_mode [of exampleGlob strictTriggerMap "''master''"]
        getWorkflowIDByPattern_pull_request_mode [of exampleGlob strictTriggerMap "''feature''"]
  by (simp add: exampleTriggerMap_def strictTriggerMap_def legacyItem_def zeroItem_def
        exampleGlob_def)

section \<open>Properties of the config composition\<close>

lemmas limits = MaxIncludeDepth_def MaxFilesCountTotal_def MaxFileSizeBytes_def
  MaxIncludeCountPerFile_def

text \<open>What a successful resolution of one reference, and of an include list, went through.\<close>

lemma mergeReference_success:
  assumes "mergeReference env depth chain st r = Inr res"
  obtains bytes fragment acc st' where
    "r \<notin> set chain" "depth < MaxIncludeDepth" "filesLoaded st < MaxFilesCountTotal"
    "readRef env r = Inr bytes" "length bytes \<le> MaxFileSizeBytes"
    "parseFragment env bytes = Some fragment"
    "length (includeRefs fragment) \<le> MaxIncludeCountPerFile"
    "mergeIncludes env (depth + 1) (chain @ [r]) r
       (st \<lparr> filesLoaded := filesLoaded st + 1, provenance := provenance st @ [r] \<rparr>)
       (Mapping []) (includeRefs fragment) = Inr (acc, st')"
    "res = (mergeValue acc (ownKeys fragment), st')"
  using assms
  by (subst (asm) mergeReference.simps)
     (auto split: if_splits sum.splits option.splits prod.splits)

lemma mergeIncludes_Cons_success:
  assumes "mergeIncludes env depth chain parent st acc (inc # rest) = Inr res"
  obtains sub st' where
    "mergeReference env depth chain st (resolveRef env parent inc) = Inr (sub, st')"
    "mergeIncludes env depth chain parent st' (mergeValue acc sub) rest = Inr res"
  using assms by (auto split: sum.splits prod.splits)

text \<open>
  A successful run loads files within the limits only. The proof goes by induction on
  the distance of the depth from \<open>MaxIncludeDepth\<close>, with an induction on the include
  list inside.
\<close>

lemma loadedWithinLimits_refl: "loadedWithinLimits env st st"
  by (simp add: loadedWithinLimits_def)

lemma loadedWithinLimits_trans:
  assumes "loadedWithinLimits env st st'" and "loadedWithinLimits env st' st''"
  shows "loadedWithinLimits env st st''"
proof -
  from assms(1) obtain new where new:
    "provenance st' = provenance st @ new" "filesLoaded st' = filesLoaded st + length new"
    "list_all (withinFileLimits env) new"
    by (auto simp add: loadedWithinLimits_def)
  from assms(2) obtain new' where new':
    "provenance st'' = provenance st' @ new'" "filesLoaded st'' = filesLoaded st' + length new'"
    "list_all (withinFileLimits env) new'"
    by (auto simp add: loadedWithinLimits_def)
  have "provenance st'' = provenance st @ (new @ new')"
    "filesLoaded st'' = filesLoaded st + length (new @ new')"
    "list_all (withinFileLimits env) (new @ new')"
    using new new' by simp_all
  moreover have "filesLoaded st \<le> MaxFilesCountTotal \<longrightarrow> filesLoaded st'' \<le> MaxFilesCountTotal"
    using assms by (simp add: loadedWithinLimits_def)
  ultimately show ?thesis
    unfolding loadedWithinLimits_def by blast
qed

lemma mergeIncludes_loaded:
  assumes ref: "\<And>chain st r res.
      mergeReference env depth chain st r = Inr res \<Longrightarrow> loadedWithinLimits env st (snd res)"
    and run: "mergeIncludes env depth chain parent st acc incs = Inr res"
  shows "loadedWithinLimits env st (snd res)"
  using run
proof (induction incs arbitrary: st acc)
  case Nil
  then show ?case by (auto simp add: loadedWithinLimits_refl)
next
  case (Cons inc rest)
  from Cons.prems obtain sub st' where
    first: "mergeReference env depth chain st (resolveRef env parent inc) = Inr (sub, st')" and
    others: "mergeIncludes env depth chain parent st' (mergeValue acc sub) rest = Inr res"
    by (rule mergeIncludes_Cons_success)
  from ref [OF first] have "loadedWithinLimits env st st'" by simp
  moreover from Cons.IH [OF others] have "loadedWithinLimits env st' (snd res)" .
  ultimately show ?case by (rule loadedWithinLimits_trans)
qed

lemma mergeReference_loaded_aux:
  "MaxIncludeDepth - depth = k \<Longrightarrow> mergeReference env depth chain st r = Inr res \<Longrightarrow>
   loadedWithinLimits env st (snd res)"
proof (induction k arbitrary: depth chain st r res)
  case 0
  from "0.prems"(2) have "depth < MaxIncludeDepth" by (rule mergeReference_success)
  with "0.prems"(1) show ?case by simp
next
  case (Suc k)
  from Suc.prems(2) obtain bytes fragment acc st' where run:
    "filesLoaded st < MaxFilesCountTotal"
    "readRef env r = Inr bytes" "length bytes \<le> MaxFileSizeBytes"
    "parseFragment env bytes = Some fragment"
    "length (includeRefs fragment) \<le> MaxIncludeCountPerFile"
    "mergeIncludes env (depth + 1) (chain @ [r]) r
       (st \<lparr> filesLoaded := filesLoaded st + 1, provenance := provenance st @ [r] \<rparr>)
       (Mapping []) (includeRefs fragment) = Inr (acc, st')"
    "res = (mergeValue acc (ownKeys fragment), st')"
    by (rule mergeReference_success)
  let ?st1 = "st \<lparr> filesLoaded := filesLoaded st + 1, provenance := provenance st @ [r] \<rparr>"
  have deeper: "MaxIncludeDepth - (depth + 1) = k"
    using Suc.prems(1) by simp
  have "loadedWithinLimits env ?st1 (snd (acc, st'))"
    by (rule mergeIncludes_loaded [OF Suc.IH [OF deeper] run(6)])
  moreover have "loadedWithinLimits env st ?st1"
    using run(1-5)
    by (auto simp add: loadedWithinLimits_def withinFileLimits_def intro: exI [of _ "[r]"])
  ultimately have "loadedWithinLimits env st st'"
    using loadedWithinLimits_trans by fastforce
  with run(7) show ?case by simp
qed

lemma mergeReference_loaded:
  "mergeReference env depth chain st r = Inr res \<Longrightarrow> loadedWithinLimits env st (snd res)"
  by (rule mergeReference_loaded_aux [OF refl])

lemma mergeConfig_within_limits:
  assumes "mergeConfig env root = Inr (doc, refs)"
  shows "length refs \<le> MaxFilesCountTotal \<and> list_all (withinFileLimits env) refs"
proof -
  from assms obtain st where
    run: "mergeReference env 0 [] \<lparr> filesLoaded = 0, provenance = [] \<rparr> root = Inr (doc, st)"
    and refs: "refs = remdups (provenance st)"
    by (auto simp add: mergeConfig_def split: sum.splits prod.splits)
  from mergeReference_loaded [OF run]
  have count: "length (provenance st) \<le> MaxFilesCountTotal"
    and each: "list_all (withinFileLimits env) (provenance st)"
    by (auto simp add: loadedWithinLimits_def)
  have "length refs \<le> length (provenance st)"
    unfolding refs by (rule length_remdups_leq)
  from this count have "length refs \<le> MaxFilesCountTotal"
    by (rule order_trans)
  moreover have "list_all (withinFileLimits env) refs"
    using each refs by (simp add: list_all_iff)
  ultimately show ?thesis by simp
qed

lemma mergeIncludes_member:
  assumes "mergeIncludes env depth chain parent st acc incs = Inr res" and "inc \<in> set incs"
  shows "\<exists>st2 res2. mergeReference env depth chain st2 (resolveRef env parent inc) = Inr res2"
  using assms
proof (induction incs arbitrary: st acc)
  case Nil
  then show ?case by simp
next
  case (Cons first rest)
  from Cons.prems(1) obtain sub st' where
    head: "mergeReference env depth chain st (resolveRef env parent first) = Inr (sub, st')" and
    tail: "mergeIncludes env depth chain parent st' (mergeValue acc sub) rest = Inr res"
    by (rule mergeIncludes_Cons_success)
  show ?case
  proof (cases "inc = first")
    case True
    with head show ?thesis by blast
  next
    case False
    with Cons.prems(2) have "inc \<in> set rest" by simp
    from Cons.IH [OF tail this] show ?thesis .
  qed
qed

lemma mergeReference_child:
  assumes "mergeReference env depth chain st r = Inr res" and "includeEdge env r r'"
  shows "\<exists>st2 res2. mergeReference env (depth + 1) (chain @ [r]) st2 r' = Inr res2"
proof -
  from assms(1) obtain bytes fragment acc st' where run:
    "readRef env r = Inr bytes" "parseFragment env bytes = Some fragment"
    "mergeIncludes env (depth + 1) (chain @ [r]) r
       (st \<lparr> filesLoaded := filesLoaded st + 1, provenance := provenance st @ [r] \<rparr>)
       (Mapping []) (includeRefs fragment) = Inr (acc, st')"
    by (rule mergeReference_success)
  from assms(2) run(1,2) obtain inc where
    inc: "inc \<in> set (includeRefs fragment)" "r' = resolveRef env r inc"
    by (auto simp add: includeEdge_def)
  from mergeIncludes_member [OF run(3) inc(1)] inc(2) show ?thesis by simp
qed

lemma mergeReference_walk:
  assumes "mergeReference env depth chain st r = Inr res" and "(includeEdge env ^^ n) r r'"
  shows "\<exists>chain2 st2 res2. mergeReference env (depth + n) chain2 st2 r' = Inr res2"
  using assms(2)
proof (induction n arbitrary: r')
  case 0
  then have "r' = r" by simp
  with assms(1) show ?case by (intro exI [of _ chain] exI [of _ st] exI [of _ res]) simp
next
  case (Suc n)
  from Suc.prems obtain mid where mid: "(includeEdge env ^^ n) r mid" "includeEdge env mid r'"
    by auto
  from Suc.IH [OF mid(1)] obtain chain2 st2 res2 where
    "mergeReference env (depth + n) chain2 st2 mid = Inr res2" by blast
  from mergeReference_child [OF this mid(2)] show ?case by auto
qed

lemma mergeConfig_walk_bound:
  assumes "mergeConfig env root = Inr result" and "(includeEdge env ^^ n) root r'"
  shows "n < MaxIncludeDepth"
proof -
  from assms(1) obtain res where
    "mergeReference env 0 [] \<lparr> filesLoaded = 0, provenance = [] \<rparr> root = Inr res"
    by (auto simp add: mergeConfig_def split: sum.splits)
  from mergeReference_walk [OF this assms(2)] obtain chain2 st2 res2 where
    "mergeReference env n chain2 st2 r' = Inr res2" by auto
  then show ?thesis by (rule mergeReference_success)
qed

lemma relpowp_cycle: "(R ^^ k) c c \<Longrightarrow> (R ^^ (k * j)) c c"
proof (induction j)
  case 0
  then show ?case by simp
next
  case (Suc j)
  then have "((R ^^ k) OO (R ^^ (k * j))) c c" by blast
  then show ?case by (simp add: relpowp_add)
qed

lemma mergeConfig_cycle_fails:
  assumes reach: "(includeEdge env)\<^sup>*\<^sup>* root c" and cycle: "(includeEdge env)\<^sup>+\<^sup>+ c c"
  shows "\<exists>e. mergeConfig env root = Inl e"
proof (cases "mergeConfig env root")
  case (Inl e)
  then show ?thesis by blast
next
  case (Inr result)
  from reach obtain m where m: "(includeEdge env ^^ m) root c"
    by (auto simp add: rtranclp_power)
  from cycle obtain k where k: "0 < k" "(includeEdge env ^^ k) c c"
    by (auto simp add: tranclp_power)
  from relpowp_cycle [OF k(2)] have "(includeEdge env ^^ (k * MaxIncludeDepth)) c c" .
  with m have "((includeEdge env ^^ m) OO (includeEdge env ^^ (k * MaxIncludeDepth))) root c"
    by blast
  then have "(includeEdge env ^^ (m + k * MaxIncludeDepth)) root c"
    by (simp add: relpowp_add)
  from mergeConfig_walk_bound [OF Inr this] k(1) show ?thesis
    by (cases k) simp_all
qed

text \<open>
  The chain of a cycle error. An error of an include list is the error of one of its
  references.
\<close>

lemma mergeReference_cycle_error:
  assumes "mergeReference env depth chain st r = Inl (CircularReference c)"
  shows "(r \<in> set chain \<and> c = chain @ [r]) \<or>
         (r \<notin> set chain \<and> depth < MaxIncludeDepth \<and>
          (\<exists>bytes fragment st1. readRef env r = Inr bytes \<and>
             parseFragment env bytes = Some fragment \<and>
             mergeIncludes env (depth + 1) (chain @ [r]) r st1 (Mapping [])
               (includeRefs fragment) = Inl (CircularReference c)))"
  using assms
  by (subst (asm) mergeReference.simps)
     (auto split: if_splits sum.splits option.splits prod.splits)

lemma mergeIncludes_error:
  assumes "mergeIncludes env depth chain parent st acc incs = Inl e"
  shows "\<exists>inc st2. inc \<in> set incs \<and>
           mergeReference env depth chain st2 (resolveRef env parent inc) = Inl e"
  using assms
proof (induction incs arbitrary: st acc)
  case Nil
  then show ?case by simp
next
  case (Cons first rest)
  show ?case
  proof (cases "mergeReference env depth chain st (resolveRef env parent first)")
    case (Inl e')
    with Cons.prems have "e' = e" by simp
    with Inl show ?thesis by auto
  next
    case (Inr res)
    obtain sub st' where "res = (sub, st')" by (cases res)
    with Inr Cons.prems have
      "mergeIncludes env depth chain parent st' (mergeValue acc sub) rest = Inl e" by simp
    from Cons.IH [OF this] show ?thesis by auto
  qed
qed

lemma mergeReference_cycle_chain_aux:
  "MaxIncludeDepth - depth = k \<Longrightarrow>
   mergeReference env depth chain st r = Inl (CircularReference c) \<Longrightarrow>
   distinct chain \<Longrightarrow> successively (includeEdge env) (chain @ [r]) \<Longrightarrow>
   namesVisitedChain env chain r c"
proof (induction k arbitrary: depth chain st r)
  case 0
  from mergeReference_cycle_error [OF "0.prems"(2)] "0.prems"(1)
  have "r \<in> set chain" "c = chain @ [r]" by auto
  with "0.prems"(3,4) show ?case by (simp add: namesVisitedChain_def)
next
  case (Suc k)
  from mergeReference_cycle_error [OF Suc.prems(2)]
  show ?case
  proof
    assume "r \<in> set chain \<and> c = chain @ [r]"
    with Suc.prems(3,4) show ?thesis by (simp add: namesVisitedChain_def)
  next
    assume deeper: "r \<notin> set chain \<and> depth < MaxIncludeDepth \<and>
          (\<exists>bytes fragment st1. readRef env r = Inr bytes \<and>
             parseFragment env bytes = Some fragment \<and>
             mergeIncludes env (depth + 1) (chain @ [r]) r st1 (Mapping [])
               (includeRefs fragment) = Inl (CircularReference c))"
    then obtain bytes fragment st1 where fetched:
      "readRef env r = Inr bytes" "parseFragment env bytes = Some fragment"
      "mergeIncludes env (depth + 1) (chain @ [r]) r st1 (Mapping [])
         (includeRefs fragment) = Inl (CircularReference c)"
      by blast
    from mergeIncludes_error [OF fetched(3)] obtain inc st2 where inc:
      "inc \<in> set (includeRefs fragment)"
      "mergeReference env (depth + 1) (chain @ [r]) st2 (resolveRef env r inc) =
         Inl (CircularReference c)"
      by blast
    have edge: "includeEdge env r (resolveRef env r inc)"
      using fetched(1,2) inc(1) by (simp add: includeEdge_def)
    have k: "MaxIncludeDepth - (depth + 1) = k" using Suc.prems(1) by simp
    have dist: "distinct (chain @ [r])" using Suc.prems(3) deeper by simp
    have walk: "successively (includeEdge env) ((chain @ [r]) @ [resolveRef env r inc])"
      using Suc.prems(4) edge by (simp add: successively_append_iff)
    from Suc.IH [OF k inc(2) dist walk]
    show ?thesis by (auto simp add: namesVisitedChain_def)
  qed
qed

lemma mergeConfig_cycle_chain:
  assumes "mergeConfig env root = Inl (CircularReference c)"
  shows "namesVisitedChain env [] root c"
proof -
  from assms have
    "mergeReference env 0 [] \<lparr> filesLoaded = 0, provenance = [] \<rparr> root =
       Inl (CircularReference c)"
    by (auto simp add: mergeConfig_def split: sum.splits)
  from mergeReference_cycle_chain_aux [OF refl this] show ?thesis by simp
qed

text \<open>Include paths as lists.\<close>

lemma successively_relpowp:
  "successively R (x # xs) \<Longrightarrow> (R ^^ length xs) x (last (x # xs))"
proof (induction xs arbitrary: x)
  case Nil
  then show ?case by simp
next
  case (Cons y ys)
  then have "R x y" and "(R ^^ length ys) y (last (y # ys))" by simp_all
  then have "(R ^^ Suc (length ys)) x (last (y # ys))" by (rule relpowp_Suc_I2)
  then show ?case by simp
qed

lemma successively_tranclp:
  assumes "successively R (x # xs)" and "xs \<noteq> []"
  shows "R\<^sup>+\<^sup>+ x (last xs)"
proof -
  from successively_relpowp [OF assms(1)] assms(2)
  have "(R ^^ length xs) x (last xs)" by simp
  moreover from assms(2) have "0 < length xs" by simp
  ultimately show ?thesis unfolding tranclp_power by blast
qed

lemma mergeConfig_path_bound:
  assumes "mergeConfig env root = Inr result" and "successively (includeEdge env) (root # path)"
  shows "length path < MaxIncludeDepth"
  using mergeConfig_walk_bound [OF assms(1) successively_relpowp [OF assms(2)]] .

text \<open>
  The runs of the examples, among them the cases of the repository's tests
  \<open>TestMerger_MergeConfig_Validation\<close> and "Merges local config module".
\<close>

lemma blank_run:
  "mergeConfig (blankEnv 1048576) root = Inr (Mapping [], [root])"
  "mergeConfig (blankEnv 1048577) root = Inl (MaxFileSizeExceeded 1048576 root)"
  by (simp_all add: mergeConfig_def mergeReference.simps blankEnv_def limits)

lemma tenIncludes_run:
  "mergeConfig (tableEnv tenIncludesFiles) (localRef ''bitrise.yml'') =
     Inr (Mapping [], [localRef ''bitrise.yml'', localRef ''path_1.yml''])"
  by (simp add: mergeConfig_def mergeReference.simps tableEnv_def tenIncludesFiles_def
        localRef_def limits)

lemma elevenIncludes_run:
  "mergeConfig (tableEnv elevenIncludesFiles) (localRef ''bitrise.yml'') =
     Inl (MaxIncludeCountExceeded 10)"
  by (simp add: mergeConfig_def mergeReference.simps tableEnv_def elevenIncludesFiles_def
        localRef_def limits)

lemma twentyFiles_run:
  "mergeConfig (tableEnv twentyFiles) (localRef ''bitrise.yml'') =
     Inr (Mapping [],
          map localRef
            [''bitrise.yml'', ''m1.yml'', ''l1.yml'', ''m2.yml'', ''l2.yml'', ''m3.yml'',
             ''l3.yml'', ''m4.yml'', ''l4.yml'', ''m5.yml'', ''l5.yml'', ''m6.yml'',
             ''l6.yml'', ''m7.yml'', ''l7.yml'', ''m8.yml'', ''l8.yml'', ''m9.yml'',
             ''l9.yml'', ''m10.yml''])"
  by (simp add: mergeConfig_def mergeReference.simps tableEnv_def twentyFiles_def
        includesOfRoot_def localRef_def limits)

lemma twentyOneFiles_run:
  "mergeConfig (tableEnv twentyOneFiles) (localRef ''bitrise.yml'') =
     Inl (MaxFilesCountExceeded 20)"
  by (simp add: mergeConfig_def mergeReference.simps tableEnv_def twentyOneFiles_def
        includesOfRoot_def localRef_def limits)

lemma fourNested_run:
  "mergeConfig (tableEnv fourNestedFiles) (localRef ''bitrise.yml'') =
     Inr (Mapping [],
          map localRef [''bitrise.yml'', ''module_1.yml'', ''module_2.yml'', ''module_3.yml'',
                        ''module_4.yml''])"
  by (simp add: mergeConfig_def mergeReference.simps tableEnv_def fourNestedFiles_def
        localRef_def limits)

lemma fiveNested_run:
  "mergeConfig (tableEnv fiveNestedFiles) (localRef ''bitrise.yml'') =
     Inl (MaxIncludeDepthExceeded 5)"
  by (simp add: mergeConfig_def mergeReference.simps tableEnv_def fiveNestedFiles_def
        localRef_def limits)

lemma threeCycle_run:
  "mergeConfig (tableEnv threeCycleFiles) (localRef ''a.yml'') =
     Inl (CircularReference (map localRef [''a.yml'', ''b.yml'', ''c.yml'', ''a.yml'']))"
  by (simp add: mergeConfig_def mergeReference.simps tableEnv_def threeCycleFiles_def
        localRef_def limits)

lemma sevenCycle_run:
  "mergeConfig (tableEnv sevenCycleFiles) (localRef ''a.yml'') =
     Inl (MaxIncludeDepthExceeded 5)"
  by (simp add: mergeConfig_def mergeReference.simps tableEnv_def sevenCycleFiles_def
        localRef_def limits)

lemma testCycle_run:
  "mergeConfig (tableEnv testCycleFiles) (localRef ''bitrise.yml'') =
     Inl (CircularReference
            (map localRef [''bitrise.yml'', ''module_1.yml'', ''module_2.yml'', ''module_1.yml'']))"
  by (simp add: mergeConfig_def mergeReference.simps tableEnv_def testCycleFiles_def
        localRef_def limits)

lemma testFileCount_run:
  "mergeConfig (tableEnv testFileCountFiles) (localRef ''bitrise.yml'') =
     Inl (MaxFilesCountExceeded 20)"
  by (simp add: mergeConfig_def mergeReference.simps tableEnv_def testFileCountFiles_def
        localRef_def limits)

lemma testMerge_run:
  "mergeConfig (tableEnv testMergeFiles) (localRef ''bitrise.yml'') =
     Inr (Mapping [(''containers'',
                    Mapping [(''golang'', Mapping [(''image'', Scalar ''golang:1.22'')])]),
                   (''format_version'', Scalar ''15''),
                   (''default_step_lib_source'',
                    Scalar ''https://github.com/bitrise-io/bitrise-steplib.git'')],
          [localRef ''bitrise.yml'', localRef ''containers.yml''])"
  by (simp add: mergeConfig_def mergeReference.simps tableEnv_def testMergeFiles_def
        localRef_def limits)

lemma limit_messages:
  "limitMessage (MaxFileSizeExceeded 1048576 (localRef ''bitrise.yml'')) =
     Some ''max file size (1048576 bytes) exceeded in file bitrise.yml''"
  "limitMessage (MaxIncludeCountExceeded 10) = Some ''max include count (10) exceeded''"
  "limitMessage (MaxFilesCountExceeded 20) = Some ''max file count (20) exceeded''"
  "limitMessage (MaxIncludeDepthExceeded 5) = Some ''max include depth (5) exceeded''"
  "limitMessage (CircularReference
       (map localRef [''bitrise.yml'', ''module_1.yml'', ''module_2.yml'', ''module_1.yml''])) =
     Some ''circular reference detected: bitrise.yml -> module_1.yml -> module_2.yml -> module_1.yml''"
  "limitMessage (CircularReference (map localRef [''a.yml'', ''b.yml'', ''c.yml'', ''a.yml''])) =
     Some ''circular reference detected: a.yml -> b.yml -> c.yml -> a.yml''"
  by (simp_all add: localRef_def)

lemma tableEnv_edge:
  "includeEdge (tableEnv files) (localRef p) (localRef q) =
     (case map_of files p of None \<Rightarrow> False | Some (incs, keys) \<Rightarrow> q \<in> set incs)"
  by (auto simp add: includeEdge_def tableEnv_def localRef_def split: option.splits)

lemma fourNested_path:
  "successively (includeEdge (tableEnv fourNestedFiles))
     (map localRef [''bitrise.yml'', ''module_1.yml'', ''module_2.yml'', ''module_3.yml'',
                    ''module_4.yml''])"
  by (simp add: tableEnv_edge fourNestedFiles_def)

lemma fiveNested_path:
  "successively (includeEdge (tableEnv fiveNestedFiles))
     (map localRef [''bitrise.yml'', ''module_1.yml'', ''module_2.yml'', ''module_3.yml'',
                    ''module_4.yml'', ''module_5.yml''])"
  by (simp add: tableEnv_edge fiveNestedFiles_def)

lemma threeCycle_path:
  "successively (includeEdge (tableEnv threeCycleFiles))
     (map localRef [''a.yml'', ''b.yml'', ''c.yml'', ''a.yml''])"
  by (simp add: tableEnv_edge threeCycleFiles_def)

lemma threeCycle_cycle:
  "(includeEdge (tableEnv threeCycleFiles))\<^sup>+\<^sup>+ (localRef ''a.yml'') (localRef ''a.yml'')"
  using successively_tranclp
    [of "includeEdge (tableEnv threeCycleFiles)" "localRef ''a.yml''"
        "map localRef [''b.yml'', ''c.yml'', ''a.yml'']"]
    threeCycle_path
  by simp

lemma sevenCycle_cycle:
  "(includeEdge (tableEnv sevenCycleFiles))\<^sup>+\<^sup>+ (localRef ''a.yml'') (localRef ''a.yml'')"
proof -
  have "successively (includeEdge (tableEnv sevenCycleFiles))
     (map localRef [''a.yml'', ''b.yml'', ''c.yml'', ''d.yml'', ''e.yml'', ''f.yml'', ''g.yml'',
                    ''a.yml''])"
    by (simp add: tableEnv_edge sevenCycleFiles_def)
  with successively_tranclp
    [of "includeEdge (tableEnv sevenCycleFiles)" "localRef ''a.yml''"
        "map localRef [''b.yml'', ''c.yml'', ''d.yml'', ''e.yml'', ''f.yml'', ''g.yml'',
                       ''a.yml'']"]
  show ?thesis by simp
qed

lemma withinFileLimits_iff:
  "withinFileLimits env r \<longleftrightarrow>
     (\<exists>bytes fragment. readRef env r = Inr bytes \<and> length bytes \<le> 1048576 \<and>
        parseFragment env bytes = Some fragment \<and> length (includeRefs fragment) \<le> 10)"
  by (auto simp add: withinFileLimits_def limits split: sum.splits option.splits)

subsection \<open>The traversal, step by step\<close>

text \<open>
  \<open>mergeReference\<close> is its checks followed by the includes; what the checks and the
  subtree predicate say, unfolded by one level.
\<close>

lemma includeEdge_children: "includeEdge env r r' \<longleftrightarrow> r' \<in> set (children env r)"
  by (auto simp add: includeEdge_def children_def split: sum.splits option.splits)

lemma mergeReference_check:
  "mergeReference env depth chain st r =
     (case checkReference env depth chain st r of
        Inl e \<Rightarrow> Inl e
      | Inr fragment \<Rightarrow>
          (case mergeIncludes env (depth + 1) (chain @ [r]) r (advance st [r]) (Mapping [])
                  (includeRefs fragment) of
             Inl e \<Rightarrow> Inl e
           | Inr (acc, st') \<Rightarrow> Inr (mergeValue acc (ownKeys fragment), st')))"
proof (cases "readRef env r")
  case (Inl e)
  then show ?thesis
    by (subst mergeReference.simps) (simp add: checkReference_def)
next
  case (Inr bytes)
  show ?thesis
  proof (cases "parseFragment env bytes")
    case None
    with Inr show ?thesis
      by (subst mergeReference.simps) (simp add: checkReference_def)
  next
    case (Some fragment)
    with Inr show ?thesis
      by (subst mergeReference.simps) (simp add: checkReference_def advance_def)
  qed
qed

lemma checkReference_Inr:
  "checkReference env depth chain st r = Inr fragment \<longleftrightarrow>
     r \<notin> set chain \<and> depth < MaxIncludeDepth \<and> filesLoaded st < MaxFilesCountTotal \<and>
     (\<exists>bytes. readRef env r = Inr bytes \<and> length bytes \<le> MaxFileSizeBytes \<and>
        parseFragment env bytes = Some fragment) \<and>
     length (includeRefs fragment) \<le> MaxIncludeCountPerFile"
  by (auto simp add: checkReference_def split: sum.splits option.splits)

lemma checkReference_children:
  "checkReference env depth chain st r = Inr fragment \<Longrightarrow>
   children env r = map (resolveRef env r) (includeRefs fragment)"
  by (auto simp add: checkReference_Inr children_def)

lemma checkReference_within:
  "checkReference env depth chain st r = Inr fragment \<Longrightarrow> withinFileLimits env r"
  by (auto simp add: checkReference_Inr withinFileLimits_def)

lemma subtreeWithinLimits_unfold:
  "subtreeWithinLimits env depth chain r \<longleftrightarrow>
     depth < MaxIncludeDepth \<and> r \<notin> set chain \<and> withinFileLimits env r \<and>
     (\<forall>c\<in>set (children env r). subtreeWithinLimits env (Suc depth) (chain @ [r]) c)"
  (is "?L \<longleftrightarrow> ?R")
proof
  assume l: ?L
  have here: "depth < MaxIncludeDepth \<and> r \<notin> set chain \<and> withinFileLimits env r"
    using l [unfolded subtreeWithinLimits_def, rule_format, of "[]"] by simp
  have "subtreeWithinLimits env (Suc depth) (chain @ [r]) c" if c: "c \<in> set (children env r)" for c
    unfolding subtreeWithinLimits_def
  proof (intro allI impI)
    fix path
    assume "successively (includeEdge env) (c # path)"
    with c have "successively (includeEdge env) (r # c # path)"
      by (simp add: includeEdge_children)
    from l [unfolded subtreeWithinLimits_def, rule_format, OF this]
    show "Suc depth + length path < MaxIncludeDepth \<and> distinct (c # path) \<and>
        set (c # path) \<inter> set (chain @ [r]) = {} \<and> withinFileLimits env (last (c # path))"
      by auto
  qed
  with here show ?R by blast
next
  assume r: ?R
  show ?L
    unfolding subtreeWithinLimits_def
  proof (intro allI impI)
    fix path
    assume walk: "successively (includeEdge env) (r # path)"
    show "depth + length path < MaxIncludeDepth \<and> distinct (r # path) \<and>
        set (r # path) \<inter> set chain = {} \<and> withinFileLimits env (last (r # path))"
    proof (cases path)
      case Nil
      with r show ?thesis by simp
    next
      case (Cons c path')
      with walk have c: "c \<in> set (children env r)"
        and walk': "successively (includeEdge env) (c # path')"
        by (simp_all add: includeEdge_children)
      from r c have "subtreeWithinLimits env (Suc depth) (chain @ [r]) c" by blast
      from this [unfolded subtreeWithinLimits_def, rule_format, OF walk'] r Cons
      show ?thesis by auto
    qed
  qed
qed

lemma advance_advance: "advance (advance st xs) ys = advance st (xs @ ys)"
  by (simp add: advance_def)

lemma advance_Nil: "advance st [] = st"
  by (simp add: advance_def)

lemma filesLoaded_advance: "filesLoaded (advance st xs) = filesLoaded st + length xs"
  by (simp add: advance_def)

subsection \<open>When a composition succeeds\<close>

text \<open>
  A reference is merged exactly when its subtree is within the limits and its loads fit
  the file count; the state then advances by the loads of the subtree.
\<close>

lemma loadList_within:
  assumes "subtreeWithinLimits env depth chain r"
  shows "loadList env (MaxIncludeDepth - 1 - depth) r =
           r # concat (map (loadList env (MaxIncludeDepth - 2 - depth)) (children env r))"
proof (cases "Suc depth < MaxIncludeDepth")
  case True
  then have "MaxIncludeDepth - 1 - depth = Suc (MaxIncludeDepth - 2 - depth)" by simp
  then show ?thesis by simp
next
  case False
  have "children env r = []"
  proof (rule ccontr)
    assume "children env r \<noteq> []"
    then obtain c where "c \<in> set (children env r)" by (cases "children env r") auto
    with assms have "subtreeWithinLimits env (Suc depth) (chain @ [r]) c"
      by (subst (asm) subtreeWithinLimits_unfold) blast
    then have "Suc depth < MaxIncludeDepth"
      by (subst (asm) subtreeWithinLimits_unfold) blast
    with False show False by simp
  qed
  moreover from False have "MaxIncludeDepth - 1 - depth = 0" by simp
  ultimately show ?thesis by simp
qed

lemma mergeIncludes_succeeds:
  assumes ref: "\<And>st r. subtreeWithinLimits env depth chain r \<Longrightarrow>
        filesLoaded st + length (loadList env n r) \<le> MaxFilesCountTotal \<Longrightarrow>
        \<exists>doc. mergeReference env depth chain st r = Inr (doc, advance st (loadList env n r))"
    and "\<forall>b\<in>set incs. subtreeWithinLimits env depth chain (resolveRef env parent b)"
    and "filesLoaded st +
           length (concat (map (\<lambda>b. loadList env n (resolveRef env parent b)) incs))
         \<le> MaxFilesCountTotal"
  shows "\<exists>acc'. mergeIncludes env depth chain parent st acc incs =
           Inr (acc', advance st (concat (map (\<lambda>b. loadList env n (resolveRef env parent b)) incs)))"
  using assms(2,3)
proof (induction incs arbitrary: st acc)
  case Nil
  then show ?case by (simp add: advance_Nil)
next
  case (Cons inc rest)
  let ?first = "loadList env n (resolveRef env parent inc)"
  let ?others = "concat (map (\<lambda>b. loadList env n (resolveRef env parent b)) rest)"
  from Cons.prems have ok: "subtreeWithinLimits env depth chain (resolveRef env parent inc)"
    and fits: "filesLoaded st + length ?first \<le> MaxFilesCountTotal"
    by simp_all
  from ref [OF ok fits] obtain doc where
    head: "mergeReference env depth chain st (resolveRef env parent inc) =
             Inr (doc, advance st ?first)"
    by blast
  have "\<forall>b\<in>set rest. subtreeWithinLimits env depth chain (resolveRef env parent b)"
    using Cons.prems(1) by simp
  moreover have "filesLoaded (advance st ?first) + length ?others \<le> MaxFilesCountTotal"
    using Cons.prems(2) by (simp add: filesLoaded_advance)
  ultimately obtain acc' where
    "mergeIncludes env depth chain parent (advance st ?first) (mergeValue acc doc) rest =
       Inr (acc', advance (advance st ?first) ?others)"
    using Cons.IH by blast
  with head show ?case by (simp add: advance_advance)
qed

lemma mergeIncludes_succeeded:
  assumes ref: "\<And>st r doc st'. mergeReference env depth chain st r = Inr (doc, st') \<Longrightarrow>
        subtreeWithinLimits env depth chain r \<and> st' = advance st (loadList env n r) \<and>
        filesLoaded st' \<le> MaxFilesCountTotal"
    and "mergeIncludes env depth chain parent st acc incs = Inr (acc', st')"
    and "filesLoaded st \<le> MaxFilesCountTotal"
  shows "(\<forall>b\<in>set incs. subtreeWithinLimits env depth chain (resolveRef env parent b)) \<and>
         st' = advance st (concat (map (\<lambda>b. loadList env n (resolveRef env parent b)) incs)) \<and>
         filesLoaded st' \<le> MaxFilesCountTotal"
  using assms(2,3)
proof (induction incs arbitrary: st acc)
  case Nil
  then show ?case by (simp add: advance_Nil)
next
  case (Cons inc rest)
  from Cons.prems(1) obtain sub st1 where
    head: "mergeReference env depth chain st (resolveRef env parent inc) = Inr (sub, st1)" and
    tail: "mergeIncludes env depth chain parent st1 (mergeValue acc sub) rest = Inr (acc', st')"
    by (rule mergeIncludes_Cons_success)
  from ref [OF head] have first:
    "subtreeWithinLimits env depth chain (resolveRef env parent inc)"
    "st1 = advance st (loadList env n (resolveRef env parent inc))"
    "filesLoaded st1 \<le> MaxFilesCountTotal"
    by blast+
  from Cons.IH [OF tail first(3)] first(1,2) show ?case
    by (auto simp add: advance_advance)
qed

lemma mergeReference_succeeds_aux:
  "MaxIncludeDepth - depth = k \<Longrightarrow> subtreeWithinLimits env depth chain r \<Longrightarrow>
   filesLoaded st + length (loadList env (MaxIncludeDepth - 1 - depth) r) \<le> MaxFilesCountTotal \<Longrightarrow>
   \<exists>doc. mergeReference env depth chain st r =
      Inr (doc, advance st (loadList env (MaxIncludeDepth - 1 - depth) r))"
proof (induction k arbitrary: depth chain st r)
  case 0
  from "0.prems"(2) have "depth < MaxIncludeDepth"
    by (subst (asm) subtreeWithinLimits_unfold) blast
  with "0.prems"(1) show ?case by simp
next
  case (Suc k)
  from Suc.prems(2) have here: "depth < MaxIncludeDepth" "r \<notin> set chain"
    "withinFileLimits env r"
    and below: "\<forall>c\<in>set (children env r). subtreeWithinLimits env (Suc depth) (chain @ [r]) c"
    by (subst (asm) subtreeWithinLimits_unfold, blast)+
  let ?n = "MaxIncludeDepth - 2 - depth"
  have unfold: "loadList env (MaxIncludeDepth - 1 - depth) r =
      r # concat (map (loadList env ?n) (children env r))"
    by (rule loadList_within [OF Suc.prems(2)])
  from here(3) obtain bytes fragment where fetched:
    "readRef env r = Inr bytes" "length bytes \<le> MaxFileSizeBytes"
    "parseFragment env bytes = Some fragment"
    "length (includeRefs fragment) \<le> MaxIncludeCountPerFile"
    by (auto simp add: withinFileLimits_def split: sum.splits option.splits)
  have kids: "children env r = map (resolveRef env r) (includeRefs fragment)"
    using fetched by (simp add: children_def)
  let ?loaded = "concat (map (\<lambda>b. loadList env ?n (resolveRef env r b)) (includeRefs fragment))"
  have loaded: "concat (map (loadList env ?n) (children env r)) = ?loaded"
    by (simp add: kids comp_def)
  have count: "filesLoaded st + Suc (length ?loaded) \<le> MaxFilesCountTotal"
    using Suc.prems(3) unfold loaded by simp
  then have check: "checkReference env depth chain st r = Inr fragment"
    using here fetched by (simp add: checkReference_Inr)
  have deeper: "MaxIncludeDepth - Suc depth = k" using Suc.prems(1) by simp
  have n: "MaxIncludeDepth - 1 - Suc depth = ?n" by simp
  have "\<exists>acc'. mergeIncludes env (Suc depth) (chain @ [r]) r (advance st [r]) (Mapping [])
            (includeRefs fragment) = Inr (acc', advance (advance st [r]) ?loaded)"
  proof (rule mergeIncludes_succeeds)
    show "\<exists>doc. mergeReference env (Suc depth) (chain @ [r]) st' c =
        Inr (doc, advance st' (loadList env ?n c))"
      if "subtreeWithinLimits env (Suc depth) (chain @ [r]) c"
        and "filesLoaded st' + length (loadList env ?n c) \<le> MaxFilesCountTotal" for st' c
      using Suc.IH [OF deeper that(1)] that(2) by (simp add: n)
    show "\<forall>b\<in>set (includeRefs fragment).
        subtreeWithinLimits env (Suc depth) (chain @ [r]) (resolveRef env r b)"
      using below kids by simp
    show "filesLoaded (advance st [r]) + length ?loaded \<le> MaxFilesCountTotal"
      using count by (simp add: filesLoaded_advance)
  qed
  then obtain acc' where
    "mergeIncludes env (depth + 1) (chain @ [r]) r (advance st [r]) (Mapping [])
       (includeRefs fragment) = Inr (acc', advance st (r # ?loaded))"
    by (auto simp add: advance_advance)
  with check have "mergeReference env depth chain st r =
      Inr (mergeValue acc' (ownKeys fragment), advance st (r # ?loaded))"
    by (simp add: mergeReference_check)
  then show ?case
    unfolding unfold loaded by blast
qed

lemma mergeReference_succeeds:
  "subtreeWithinLimits env depth chain r \<Longrightarrow>
   filesLoaded st + length (loadList env (MaxIncludeDepth - 1 - depth) r) \<le> MaxFilesCountTotal \<Longrightarrow>
   \<exists>doc. mergeReference env depth chain st r =
      Inr (doc, advance st (loadList env (MaxIncludeDepth - 1 - depth) r))"
  by (rule mergeReference_succeeds_aux [OF refl])

lemma mergeReference_succeeded_aux:
  "MaxIncludeDepth - depth = k \<Longrightarrow> mergeReference env depth chain st r = Inr (doc, st') \<Longrightarrow>
   subtreeWithinLimits env depth chain r \<and>
   st' = advance st (loadList env (MaxIncludeDepth - 1 - depth) r) \<and>
   filesLoaded st' \<le> MaxFilesCountTotal"
proof (induction k arbitrary: depth chain st r doc st')
  case 0
  from "0.prems"(2) have "depth < MaxIncludeDepth" by (rule mergeReference_success)
  with "0.prems"(1) show ?case by simp
next
  case (Suc k)
  from Suc.prems(2) obtain fragment acc where
    check: "checkReference env depth chain st r = Inr fragment" and
    incs: "mergeIncludes env (Suc depth) (chain @ [r]) r (advance st [r]) (Mapping [])
             (includeRefs fragment) = Inr (acc, st')"
    by (auto simp add: mergeReference_check split: sum.splits prod.splits)
  let ?n = "MaxIncludeDepth - 2 - depth"
  let ?loaded = "concat (map (\<lambda>b. loadList env ?n (resolveRef env r b)) (includeRefs fragment))"
  have deeper: "MaxIncludeDepth - Suc depth = k" using Suc.prems(1) by simp
  have n: "MaxIncludeDepth - 1 - Suc depth = ?n" by simp
  from check have here: "r \<notin> set chain" "depth < MaxIncludeDepth"
    "filesLoaded st < MaxFilesCountTotal"
    by (simp_all add: checkReference_Inr)
  have below: "(\<forall>b\<in>set (includeRefs fragment).
        subtreeWithinLimits env (Suc depth) (chain @ [r]) (resolveRef env r b)) \<and>
      st' = advance (advance st [r]) ?loaded \<and> filesLoaded st' \<le> MaxFilesCountTotal"
  proof (rule mergeIncludes_succeeded [OF _ incs])
    show "subtreeWithinLimits env (Suc depth) (chain @ [r]) c \<and>
        st2 = advance st1 (loadList env ?n c) \<and> filesLoaded st2 \<le> MaxFilesCountTotal"
      if "mergeReference env (Suc depth) (chain @ [r]) st1 c = Inr (d, st2)" for st1 c d st2
      using Suc.IH [OF deeper that] unfolding n by blast
    show "filesLoaded (advance st [r]) \<le> MaxFilesCountTotal"
      using here(3) by (simp add: filesLoaded_advance)
  qed
  have kids: "children env r = map (resolveRef env r) (includeRefs fragment)"
    by (rule checkReference_children [OF check])
  have ok: "subtreeWithinLimits env depth chain r"
    using here below kids checkReference_within [OF check]
    by (subst subtreeWithinLimits_unfold) simp
  have "loadList env (MaxIncludeDepth - 1 - depth) r = r # ?loaded"
    unfolding loadList_within [OF ok] kids by (simp add: comp_def)
  with ok below show ?case by (auto simp add: advance_advance)
qed

lemma mergeReference_succeeded:
  "mergeReference env depth chain st r = Inr (doc, st') \<Longrightarrow>
   subtreeWithinLimits env depth chain r \<and>
   st' = advance st (loadList env (MaxIncludeDepth - 1 - depth) r) \<and>
   filesLoaded st' \<le> MaxFilesCountTotal"
  by (rule mergeReference_succeeded_aux [OF refl])

lemma mergeConfig_succeeds_iff:
  "(\<exists>doc. mergeConfig env root = Inr (doc, refs)) \<longleftrightarrow>
     subtreeWithinLimits env 0 [] root \<and>
     length (loadList env (MaxIncludeDepth - 1) root) \<le> MaxFilesCountTotal \<and>
     refs = remdups (loadList env (MaxIncludeDepth - 1) root)"
  (is "?L \<longleftrightarrow> ?R")
proof
  assume ?L
  then obtain doc st where
    run: "mergeReference env 0 [] \<lparr> filesLoaded = 0, provenance = [] \<rparr> root = Inr (doc, st)"
    and refs: "refs = remdups (provenance st)"
    by (auto simp add: mergeConfig_def split: sum.splits prod.splits)
  from mergeReference_succeeded [OF run] refs show ?R
    by (auto simp add: advance_def)
next
  assume r: ?R
  then have "filesLoaded \<lparr> filesLoaded = 0, provenance = [] \<rparr> +
      length (loadList env (MaxIncludeDepth - 1 - 0) root) \<le> MaxFilesCountTotal"
    by simp
  from mergeReference_succeeds [OF _ this] r obtain doc where
    "mergeReference env 0 [] \<lparr> filesLoaded = 0, provenance = [] \<rparr> root =
       Inr (doc, advance \<lparr> filesLoaded = 0, provenance = [] \<rparr>
                   (loadList env (MaxIncludeDepth - 1) root))"
    by auto
  with r show ?L by (simp add: mergeConfig_def advance_def)
qed

subsection \<open>When a composition fails, and with which error\<close>

text \<open>
  The error of a run is the error of the first check that fails: the run fails with
  \<open>e\<close> exactly when the traversal arrives, with everything before passed, at a
  reference whose checks give \<open>e\<close>.
\<close>

lemma mergeIncludes_append:
  "mergeIncludes env depth chain parent st acc (xs @ ys) =
     (case mergeIncludes env depth chain parent st acc xs of
        Inl e \<Rightarrow> Inl e
      | Inr (acc', st') \<Rightarrow> mergeIncludes env depth chain parent st' acc' ys)"
  by (induction xs arbitrary: st acc) (auto split: sum.splits)

lemma mergeIncludes_first_error:
  "mergeIncludes env depth chain parent st acc incs = Inl e \<Longrightarrow>
   \<exists>before inc after acc1 st1. incs = before @ inc # after \<and>
     mergeIncludes env depth chain parent st acc before = Inr (acc1, st1) \<and>
     mergeReference env depth chain st1 (resolveRef env parent inc) = Inl e"
proof (induction incs arbitrary: st acc)
  case Nil
  then show ?case by simp
next
  case (Cons inc rest)
  show ?case
  proof (cases "mergeReference env depth chain st (resolveRef env parent inc)")
    case (Inl e')
    with Cons.prems have "e' = e" by simp
    with Inl have "inc # rest = [] @ inc # rest \<and>
        mergeIncludes env depth chain parent st acc [] = Inr (acc, st) \<and>
        mergeReference env depth chain st (resolveRef env parent inc) = Inl e"
      by simp
    then show ?thesis by blast
  next
    case (Inr p)
    obtain sub st' where p: "p = (sub, st')" by (cases p)
    with Cons.prems Inr
    have "mergeIncludes env depth chain parent st' (mergeValue acc sub) rest = Inl e"
      by simp
    from Cons.IH [OF this] obtain before i after acc1 st1 where
      "rest = before @ i # after"
      "mergeIncludes env depth chain parent st' (mergeValue acc sub) before = Inr (acc1, st1)"
      "mergeReference env depth chain st1 (resolveRef env parent i) = Inl e"
      by blast
    with Inr p have "inc # rest = (inc # before) @ i # after \<and>
        mergeIncludes env depth chain parent st acc (inc # before) = Inr (acc1, st1) \<and>
        mergeReference env depth chain st1 (resolveRef env parent i) = Inl e"
      by simp
    then show ?thesis by blast
  qed
qed

lemma descent_sound:
  "descent env root depth chain st r \<Longrightarrow> mergeReference env depth chain st r = Inl e \<Longrightarrow>
   mergeConfig env root = Inl e"
proof (induction arbitrary: e rule: descent.induct)
  case atRoot
  then show ?case by (simp add: mergeConfig_def)
next
  case (intoInclude depth chain st r fragment before inc after loaded)
  let ?n = "MaxIncludeDepth - 2 - depth"
  let ?others = "concat (map (\<lambda>b. loadList env ?n (resolveRef env r b)) before)"
  have n: "MaxIncludeDepth - 1 - Suc depth = ?n" by simp
  have loaded: "loaded = r # ?others" by fact
  have "\<exists>acc'. mergeIncludes env (Suc depth) (chain @ [r]) r (advance st [r]) (Mapping [])
            before = Inr (acc', advance (advance st [r]) ?others)"
  proof (rule mergeIncludes_succeeds)
    show "\<exists>doc. mergeReference env (Suc depth) (chain @ [r]) st' c =
        Inr (doc, advance st' (loadList env ?n c))"
      if "subtreeWithinLimits env (Suc depth) (chain @ [r]) c"
        and "filesLoaded st' + length (loadList env ?n c) \<le> MaxFilesCountTotal" for st' c
      using mergeReference_succeeds [OF that(1), of st'] that(2) unfolding n by blast
    show "\<forall>b\<in>set before.
        subtreeWithinLimits env (Suc depth) (chain @ [r]) (resolveRef env r b)"
      by fact
    show "filesLoaded (advance st [r]) + length ?others \<le> MaxFilesCountTotal"
      using \<open>filesLoaded st + length loaded \<le> MaxFilesCountTotal\<close> loaded
      by (simp add: filesLoaded_advance)
  qed
  then obtain acc' where pre:
    "mergeIncludes env (Suc depth) (chain @ [r]) r (advance st [r]) (Mapping []) before =
       Inr (acc', advance st loaded)"
    by (auto simp add: advance_advance loaded)
  have "mergeIncludes env (Suc depth) (chain @ [r]) r (advance st [r]) (Mapping [])
          (includeRefs fragment) = Inl e"
    unfolding \<open>includeRefs fragment = before @ inc # after\<close> mergeIncludes_append pre
    using intoInclude.prems by simp
  with \<open>checkReference env depth chain st r = Inr fragment\<close>
  have "mergeReference env depth chain st r = Inl e"
    by (simp add: mergeReference_check)
  then show ?case by (rule intoInclude.IH)
qed

lemma descent_complete_aux:
  "MaxIncludeDepth - depth = k \<Longrightarrow> descent env root depth chain st r \<Longrightarrow>
   mergeReference env depth chain st r = Inl e \<Longrightarrow>
   \<exists>depth' chain' st' r'. descent env root depth' chain' st' r' \<and>
     checkReference env depth' chain' st' r' = Inl e"
proof (induction k arbitrary: depth chain st r)
  case 0
  then have "MaxIncludeDepth \<le> depth" by simp
  then have "\<exists>e'. checkReference env depth chain st r = Inl e'"
    by (simp add: checkReference_def)
  with "0.prems"(3) have "checkReference env depth chain st r = Inl e"
    by (auto simp add: mergeReference_check)
  with "0.prems"(2) show ?case by blast
next
  case (Suc k)
  show ?case
  proof (cases "checkReference env depth chain st r")
    case (Inl e')
    with Suc.prems(3) have "e' = e" by (simp add: mergeReference_check)
    with Inl Suc.prems(2) show ?thesis by blast
  next
    case (Inr fragment)
    let ?n = "MaxIncludeDepth - 2 - depth"
    have n: "MaxIncludeDepth - 1 - Suc depth = ?n" by simp
    have deeper: "MaxIncludeDepth - Suc depth = k" using Suc.prems(1) by simp
    from Inr Suc.prems(3)
    have "mergeIncludes env (Suc depth) (chain @ [r]) r (advance st [r]) (Mapping [])
            (includeRefs fragment) = Inl e"
      by (auto simp add: mergeReference_check split: sum.splits)
    from mergeIncludes_first_error [OF this] obtain before inc after acc1 st1 where
      split: "includeRefs fragment = before @ inc # after" and
      pre: "mergeIncludes env (Suc depth) (chain @ [r]) r (advance st [r]) (Mapping []) before =
              Inr (acc1, st1)" and
      fail: "mergeReference env (Suc depth) (chain @ [r]) st1 (resolveRef env r inc) = Inl e"
      by blast
    let ?others = "concat (map (\<lambda>b. loadList env ?n (resolveRef env r b)) before)"
    have facts: "(\<forall>b\<in>set before.
          subtreeWithinLimits env (Suc depth) (chain @ [r]) (resolveRef env r b)) \<and>
        st1 = advance (advance st [r]) ?others \<and> filesLoaded st1 \<le> MaxFilesCountTotal"
    proof (rule mergeIncludes_succeeded [OF _ pre])
      show "subtreeWithinLimits env (Suc depth) (chain @ [r]) c \<and>
          st3 = advance st2 (loadList env ?n c) \<and> filesLoaded st3 \<le> MaxFilesCountTotal"
        if "mergeReference env (Suc depth) (chain @ [r]) st2 c = Inr (d, st3)" for st2 c d st3
        using mergeReference_succeeded [OF that] unfolding n by blast
      show "filesLoaded (advance st [r]) \<le> MaxFilesCountTotal"
        using Inr by (simp add: checkReference_Inr filesLoaded_advance)
    qed
    then have st1: "st1 = advance st (r # ?others)"
      and count: "filesLoaded st + length (r # ?others) \<le> MaxFilesCountTotal"
      and within: "\<forall>b\<in>set before.
          subtreeWithinLimits env (Suc depth) (chain @ [r]) (resolveRef env r b)"
      by (auto simp add: advance_advance filesLoaded_advance)
    have "descent env root (Suc depth) (chain @ [r]) (advance st (r # ?others))
            (resolveRef env r inc)"
      by (rule descent.intoInclude [OF Suc.prems(2) Inr split within refl count])
    from Suc.IH [OF deeper this fail [unfolded st1]] show ?thesis .
  qed
qed

lemma mergeConfig_error_iff:
  "mergeConfig env root = Inl e \<longleftrightarrow>
     (\<exists>depth chain st r. descent env root depth chain st r \<and>
        checkReference env depth chain st r = Inl e)"
  (is "?L \<longleftrightarrow> ?R")
proof
  assume ?L
  then have "mergeReference env 0 [] \<lparr> filesLoaded = 0, provenance = [] \<rparr> root = Inl e"
    by (auto simp add: mergeConfig_def split: sum.splits)
  from descent_complete_aux [OF refl descent.atRoot this] show ?R .
next
  assume ?R
  then obtain depth chain st r where reach: "descent env root depth chain st r"
    and check: "checkReference env depth chain st r = Inl e"
    by blast
  from check have "mergeReference env depth chain st r = Inl e"
    by (simp add: mergeReference_check)
  with reach show ?L by (rule descent_sound)
qed

lemma descent_invariant:
  "descent env root depth chain st r \<Longrightarrow>
     length chain = depth \<and> depth \<le> MaxIncludeDepth \<and> distinct chain \<and>
     successively (includeEdge env) (chain @ [r]) \<and> hd (chain @ [r]) = root \<and>
     filesLoaded st \<le> MaxFilesCountTotal \<and> filesLoaded st = length (provenance st) \<and>
     set chain \<subseteq> set (provenance st)"
proof (induction rule: descent.induct)
  case atRoot
  then show ?case by simp
next
  case (intoInclude depth chain st r fragment before inc after loaded)
  have check: "checkReference env depth chain st r = Inr fragment" by fact
  then have here: "r \<notin> set chain" "depth < MaxIncludeDepth"
    by (simp_all add: checkReference_Inr)
  have "resolveRef env r inc \<in> set (children env r)"
    unfolding checkReference_children [OF check]
    using \<open>includeRefs fragment = before @ inc # after\<close> by simp
  then have edge: "includeEdge env r (resolveRef env r inc)"
    by (simp add: includeEdge_children)
  have walk: "successively (includeEdge env) ((chain @ [r]) @ [resolveRef env r inc])"
    using intoInclude.IH edge by (simp add: successively_append_iff)
  have start: "hd ((chain @ [r]) @ [resolveRef env r inc]) = root"
    using intoInclude.IH by (cases chain) simp_all
  have loaded: "loaded = r # concat (map (\<lambda>b. loadList env (MaxIncludeDepth - 2 - depth)
                                                   (resolveRef env r b)) before)"
    by fact
  have state: "filesLoaded (advance st loaded) \<le> MaxFilesCountTotal"
      "filesLoaded (advance st loaded) = length (provenance (advance st loaded))"
      "set (chain @ [r]) \<subseteq> set (provenance (advance st loaded))"
    using intoInclude.IH \<open>filesLoaded st + length loaded \<le> MaxFilesCountTotal\<close> loaded
    by (auto simp add: advance_def)
  from intoInclude.IH here walk start state show ?case by simp
qed

lemma firstInclude_descent:
  "successively (firstInclude env) (chain @ [r]) \<Longrightarrow> hd (chain @ [r]) = root \<Longrightarrow>
   distinct chain \<Longrightarrow> length chain \<le> MaxIncludeDepth \<Longrightarrow>
   descent env root (length chain) chain
     \<lparr> filesLoaded = length chain, provenance = chain \<rparr> r"
proof (induction chain arbitrary: r rule: rev_induct)
  case Nil
  then show ?case by (simp add: descent.atRoot)
next
  case (snoc p xs)
  let ?st = "\<lparr> filesLoaded = length xs, provenance = xs \<rparr>"
  from snoc.prems(1) have walk: "successively (firstInclude env) (xs @ [p])"
    and first: "firstInclude env p r"
    by (simp_all add: successively_append_iff)
  from snoc.prems(2) have start: "hd (xs @ [p]) = root" by (cases xs) simp_all
  from snoc.prems(3) have fresh: "distinct xs" "p \<notin> set xs" by simp_all
  from snoc.prems(4) have shallow: "length xs < MaxIncludeDepth" by simp
  then have short: "length xs \<le> MaxIncludeDepth" by simp
  have reach: "descent env root (length xs) xs ?st p"
    by (rule snoc.IH [OF walk start fresh(1) short])
  from first obtain bytes fragment where fetched:
    "readRef env p = Inr bytes" "length bytes \<le> MaxFileSizeBytes"
    "parseFragment env bytes = Some fragment"
    "length (includeRefs fragment) \<le> MaxIncludeCountPerFile"
    by (auto simp add: firstInclude_def withinFileLimits_def split: sum.splits option.splits)
  from shallow have few: "length xs < MaxFilesCountTotal" by (simp add: limits)
  have check: "checkReference env (length xs) xs ?st p = Inr fragment"
    using fresh(2) shallow few fetched by (simp add: checkReference_Inr)
  from first fetched obtain inc after where
    split: "includeRefs fragment = [] @ inc # after" and inc: "resolveRef env p inc = r"
    by (cases "includeRefs fragment") (auto simp add: firstInclude_def children_def)
  have "descent env root (Suc (length xs)) (xs @ [p]) (advance ?st [p]) (resolveRef env p inc)"
  proof (rule descent.intoInclude [OF reach check split])
    show "\<forall>b\<in>set []. subtreeWithinLimits env (Suc (length xs)) (xs @ [p]) (resolveRef env p b)"
      by simp
    show "[p] = p # concat (map (\<lambda>b. loadList env (MaxIncludeDepth - 2 - length xs)
                                         (resolveRef env p b)) [])"
      by simp
    show "filesLoaded ?st + length [p] \<le> MaxFilesCountTotal"
      using few by simp
  qed
  then show ?case by (simp add: inc advance_def)
qed

lemma firstInclude_cycle:
  assumes "successively (firstInclude env) (chain @ [r])" and "hd (chain @ [r]) = root"
    and "distinct chain" and "length chain \<le> MaxIncludeDepth" and "r \<in> set chain"
  shows "mergeConfig env root = Inl (CircularReference (chain @ [r]))"
proof -
  have "descent env root (length chain) chain
      \<lparr> filesLoaded = length chain, provenance = chain \<rparr> r"
    by (rule firstInclude_descent [OF assms(1-4)])
  moreover have "checkReference env (length chain) chain
      \<lparr> filesLoaded = length chain, provenance = chain \<rparr> r =
      Inl (CircularReference (chain @ [r]))"
    using assms(5) by (simp add: checkReference_def)
  ultimately show ?thesis
    unfolding mergeConfig_error_iff by blast
qed

lemma checkReference_cycle:
  "checkReference env depth chain st r = Inl (CircularReference c) \<longleftrightarrow>
     r \<in> set chain \<and> c = chain @ [r]"
  by (auto simp add: checkReference_def split: sum.splits option.splits)

lemma checkReference_depth:
  "checkReference env depth chain st r = Inl (MaxIncludeDepthExceeded n) \<longleftrightarrow>
     r \<notin> set chain \<and> MaxIncludeDepth \<le> depth \<and> n = MaxIncludeDepth"
  by (auto simp add: checkReference_def split: sum.splits option.splits)

lemma checkReference_files:
  "checkReference env depth chain st r = Inl (MaxFilesCountExceeded n) \<longleftrightarrow>
     r \<notin> set chain \<and> depth < MaxIncludeDepth \<and> MaxFilesCountTotal \<le> filesLoaded st \<and>
     n = MaxFilesCountTotal"
  by (auto simp add: checkReference_def split: sum.splits option.splits)

lemma checkReference_size:
  "checkReference env depth chain st r = Inl (MaxFileSizeExceeded n r') \<longleftrightarrow>
     r \<notin> set chain \<and> depth < MaxIncludeDepth \<and> filesLoaded st < MaxFilesCountTotal \<and>
     (\<exists>bytes. readRef env r = Inr bytes \<and> MaxFileSizeBytes < length bytes) \<and>
     n = MaxFileSizeBytes \<and> r' = r"
  by (auto simp add: checkReference_def split: sum.splits option.splits)

lemma checkReference_includes:
  "checkReference env depth chain st r = Inl (MaxIncludeCountExceeded n) \<longleftrightarrow>
     r \<notin> set chain \<and> depth < MaxIncludeDepth \<and> filesLoaded st < MaxFilesCountTotal \<and>
     (\<exists>bytes fragment. readRef env r = Inr bytes \<and> length bytes \<le> MaxFileSizeBytes \<and>
        parseFragment env bytes = Some fragment \<and>
        MaxIncludeCountPerFile < length (includeRefs fragment)) \<and>
     n = MaxIncludeCountPerFile"
  by (auto simp add: checkReference_def split: sum.splits option.splits)

lemma mergeConfig_succeeds_paths:
  "(\<exists>doc refs. mergeConfig env root = Inr (doc, refs)) \<longleftrightarrow>
     (\<forall>path. successively (includeEdge env) (root # path) \<longrightarrow>
        length path \<le> 4 \<and> distinct (root # path) \<and>
        (\<exists>bytes fragment. readRef env (last (root # path)) = Inr bytes \<and>
           length bytes \<le> 1048576 \<and> parseFragment env bytes = Some fragment \<and>
           length (includeRefs fragment) \<le> 10)) \<and>
     length (loadList env 4 root) \<le> 20"
proof -
  have four: "MaxIncludeDepth - 1 = 4" by (simp add: limits)
  have "(\<exists>doc refs. mergeConfig env root = Inr (doc, refs)) \<longleftrightarrow>
      subtreeWithinLimits env 0 [] root \<and>
      length (loadList env (MaxIncludeDepth - 1) root) \<le> MaxFilesCountTotal"
    using mergeConfig_succeeds_iff [of env root] by blast
  also have "subtreeWithinLimits env 0 [] root \<longleftrightarrow>
      (\<forall>path. successively (includeEdge env) (root # path) \<longrightarrow>
        length path \<le> 4 \<and> distinct (root # path) \<and>
        (\<exists>bytes fragment. readRef env (last (root # path)) = Inr bytes \<and>
           length bytes \<le> 1048576 \<and> parseFragment env bytes = Some fragment \<and>
           length (includeRefs fragment) \<le> 10))"
    unfolding subtreeWithinLimits_def withinFileLimits_iff
    by (simp add: limits less_Suc_eq_le [symmetric] del: last.simps distinct.simps)
  finally show ?thesis
    unfolding four by (simp add: limits)
qed

lemma mergeConfig_size_error_iff:
  "mergeConfig env root = Inl (MaxFileSizeExceeded n r) \<longleftrightarrow>
     n = 1048576 \<and>
     (\<exists>depth chain st bytes. descent env root depth chain st r \<and> r \<notin> set chain \<and>
        depth < 5 \<and> filesLoaded st < 20 \<and> readRef env r = Inr bytes \<and>
        1048576 < length bytes)"
  unfolding mergeConfig_error_iff checkReference_size
  by (simp add: limits) blast

lemma mergeConfig_include_count_error_iff:
  "mergeConfig env root = Inl (MaxIncludeCountExceeded n) \<longleftrightarrow>
     n = 10 \<and>
     (\<exists>depth chain st r bytes fragment. descent env root depth chain st r \<and>
        r \<notin> set chain \<and> depth < 5 \<and> filesLoaded st < 20 \<and> readRef env r = Inr bytes \<and>
        length bytes \<le> 1048576 \<and> parseFragment env bytes = Some fragment \<and>
        10 < length (includeRefs fragment))"
  unfolding mergeConfig_error_iff checkReference_includes
  by (simp add: limits) blast

lemma mergeConfig_file_count_error_iff:
  "mergeConfig env root = Inl (MaxFilesCountExceeded n) \<longleftrightarrow>
     n = 20 \<and>
     (\<exists>depth chain st r. descent env root depth chain st r \<and> r \<notin> set chain \<and> depth < 5 \<and>
        filesLoaded st = 20)"
proof -
  have "MaxFilesCountTotal \<le> filesLoaded st \<longleftrightarrow> filesLoaded st = 20"
    if "descent env root depth chain st r" for depth chain st r
    using descent_invariant [OF that] by (auto simp add: limits)
  then show ?thesis
    unfolding mergeConfig_error_iff checkReference_files
    by (simp add: limits) blast
qed

lemma mergeConfig_depth_error_iff:
  "mergeConfig env root = Inl (MaxIncludeDepthExceeded n) \<longleftrightarrow>
     n = 5 \<and> (\<exists>chain st r. descent env root 5 chain st r \<and> r \<notin> set chain)"
proof -
  have "MaxIncludeDepth \<le> depth \<longleftrightarrow> depth = 5"
    if "descent env root depth chain st r" for depth chain st r
    using descent_invariant [OF that] by (auto simp add: limits)
  then show ?thesis
    unfolding mergeConfig_error_iff checkReference_depth
    by (simp add: limits) blast
qed

lemma mergeConfig_cycle_error_iff:
  "mergeConfig env root = Inl (CircularReference c) \<longleftrightarrow>
     (\<exists>depth chain st r. descent env root depth chain st r \<and> r \<in> set chain \<and>
        c = chain @ [r])"
  unfolding mergeConfig_error_iff checkReference_cycle ..


text \<open>More runs of the examples.\<close>

lemma sizedInclude_run:
  "mergeConfig (sizedIncludeEnv 1048576) (localRef ''bitrise.yml'') =
     Inr (Mapping [], [localRef ''bitrise.yml'', localRef ''big.yml''])"
  "mergeConfig (sizedIncludeEnv 1048577) (localRef ''bitrise.yml'') =
     Inl (MaxFileSizeExceeded 1048576 (localRef ''big.yml''))"
  by (simp_all add: mergeConfig_def mergeReference.simps sizedIncludeEnv_def localRef_def limits)

lemma nestedEleven_run:
  "mergeConfig (tableEnv nestedElevenFiles) (localRef ''bitrise.yml'') =
     Inl (MaxIncludeCountExceeded 10)"
  by (simp add: mergeConfig_def mergeReference.simps tableEnv_def nestedElevenFiles_def
        localRef_def limits)

lemma fourCycle_run:
  "mergeConfig (tableEnv fourCycleFiles) (localRef ''a.yml'') =
     Inl (CircularReference (map localRef [''a.yml'', ''b.yml'', ''c.yml'', ''d.yml'', ''a.yml'']))"
  by (simp add: mergeConfig_def mergeReference.simps tableEnv_def fourCycleFiles_def
        localRef_def limits)

lemma fiveCycle_run:
  "mergeConfig (tableEnv fiveCycleFiles) (localRef ''a.yml'') =
     Inl (CircularReference
            (map localRef [''a.yml'', ''b.yml'', ''c.yml'', ''d.yml'', ''e.yml'', ''a.yml'']))"
  by (simp add: mergeConfig_def mergeReference.simps tableEnv_def fiveCycleFiles_def
        localRef_def limits)

lemma siblingCycle_run:
  "mergeConfig (tableEnv siblingCycleFiles) (localRef ''a.yml'') =
     Inl (CircularReference (map localRef [''a.yml'', ''b.yml'', ''a.yml'']))"
  by (simp add: mergeConfig_def mergeReference.simps tableEnv_def siblingCycleFiles_def
        localRef_def limits)

lemma hiddenCycle_run:
  "mergeConfig (tableEnv hiddenCycleFiles) (localRef ''a.yml'') =
     Inl (FetchError ''file not found: missing.yml'')"
  by (simp add: mergeConfig_def mergeReference.simps tableEnv_def hiddenCycleFiles_def
        localRef_def limits)

lemma tableEnv_firstInclude:
  "firstInclude (tableEnv files) (localRef p) (localRef q) =
     (case map_of files p of
        None \<Rightarrow> False
      | Some (incs, keys) \<Rightarrow> length p \<le> 1048576 \<and> length incs \<le> 10 \<and>
          (case incs of [] \<Rightarrow> False | c # rest \<Rightarrow> c = q))"
  by (auto simp add: firstInclude_def withinFileLimits_def children_def tableEnv_def
        localRef_def limits split: option.splits list.splits)

lemma fourCycle_firstIncludes:
  "successively (firstInclude (tableEnv fourCycleFiles))
     (map localRef [''a.yml'', ''b.yml'', ''c.yml'', ''d.yml''] @ [localRef ''a.yml''])"
  by (simp add: tableEnv_firstInclude fourCycleFiles_def)

lemma hiddenCycle_cycle:
  "(includeEdge (tableEnv hiddenCycleFiles))\<^sup>+\<^sup>+ (localRef ''a.yml'') (localRef ''a.yml'')"
proof -
  have "successively (includeEdge (tableEnv hiddenCycleFiles))
     (map localRef [''a.yml'', ''b.yml'', ''a.yml''])"
    by (simp add: tableEnv_edge hiddenCycleFiles_def)
  with successively_tranclp
    [of "includeEdge (tableEnv hiddenCycleFiles)" "localRef ''a.yml''"
        "map localRef [''b.yml'', ''a.yml'']"]
  show ?thesis by simp
qed

lemma testFileCount_loads:
  "length (loadList (tableEnv testFileCountFiles) 4 (localRef ''bitrise.yml'')) = 21"
  "remdups (loadList (tableEnv testFileCountFiles) 4 (localRef ''bitrise.yml'')) =
     map localRef [''bitrise.yml'', ''path_1.yml'', ''path_2.yml'']"
  by (simp_all add: eval_nat_numeral children_def tableEnv_def testFileCountFiles_def
        localRef_def)

lemma tenIncludes_loads:
  "length (loadList (tableEnv tenIncludesFiles) 4 (localRef ''bitrise.yml'')) = 11"
  by (simp add: eval_nat_numeral children_def tableEnv_def tenIncludesFiles_def localRef_def)

lemma twentyLoads_run:
  "mergeConfig (tableEnv twentyLoadsFiles) (localRef ''bitrise.yml'') =
     Inr (Mapping [], map localRef [''bitrise.yml'', ''path_1.yml'', ''path_2.yml''])"
  by (simp add: mergeConfig_def mergeReference.simps tableEnv_def twentyLoadsFiles_def
        localRef_def limits)

lemma twentyLoads_loads:
  "length (loadList (tableEnv twentyLoadsFiles) 4 (localRef ''bitrise.yml'')) = 20"
  by (simp add: eval_nat_numeral children_def tableEnv_def twentyLoadsFiles_def localRef_def)

text \<open>
  C7, as amended. Each numeric limit is an exact boundary, enforced with an error that
  names the limit. A run succeeds exactly when every include path from the root holds
  at most 4 files after the root, repeats no file and ends in a file that can be read
  and parsed, of at most 1,048,576 bytes and with at most 10 include entries, and the
  run makes at most 20 file loads, a file counted each time it is loaded. It fails with
  the file-size error, naming 1048576 and the file, exactly when the traversal arrives
  at a file of more than 1,048,576 bytes; with the include-count error, naming 10,
  exactly when it arrives at a file with more than 10 include entries; with the
  file-count error, naming 20, exactly when it arrives at a 21st load; with the depth
  error, naming 5, exactly when it arrives at a 5th level below the root; in each case
  with every check before that point passed. A successful run incorporates at most 20
  references, each of them a file within the two per-file limits. The runs at the boundaries: 1,048,576
  bytes succeed and 1,048,577 fail, for the root and for an included file; 10 include
  entries succeed and an 11th fails, in the root and in an included file; 20 loads
  succeed and a 21st fails, of distinct files and of files loaded repeatedly; a root
  with 4 nested levels succeeds and a 5th nested level fails.
\<close>

theorem mergeConfig_limits:
  "((\<exists>doc refs. mergeConfig env root = Inr (doc, refs)) \<longleftrightarrow>
      (\<forall>path. successively (includeEdge env) (root # path) \<longrightarrow>
         length path \<le> 4 \<and> distinct (root # path) \<and>
         (\<exists>bytes fragment. readRef env (last (root # path)) = Inr bytes \<and>
            length bytes \<le> 1048576 \<and> parseFragment env bytes = Some fragment \<and>
            length (includeRefs fragment) \<le> 10)) \<and>
      length (loadList env 4 root) \<le> 20) \<and>
   (mergeConfig env root = Inl (MaxFileSizeExceeded n r) \<longleftrightarrow>
      n = 1048576 \<and>
      (\<exists>depth chain st bytes. descent env root depth chain st r \<and> r \<notin> set chain \<and>
         depth < 5 \<and> filesLoaded st < 20 \<and> readRef env r = Inr bytes \<and>
         1048576 < length bytes)) \<and>
   (mergeConfig env root = Inl (MaxIncludeCountExceeded n) \<longleftrightarrow>
      n = 10 \<and>
      (\<exists>depth chain st r bytes fragment. descent env root depth chain st r \<and>
         r \<notin> set chain \<and> depth < 5 \<and> filesLoaded st < 20 \<and> readRef env r = Inr bytes \<and>
         length bytes \<le> 1048576 \<and> parseFragment env bytes = Some fragment \<and>
         10 < length (includeRefs fragment))) \<and>
   (mergeConfig env root = Inl (MaxFilesCountExceeded n) \<longleftrightarrow>
      n = 20 \<and>
      (\<exists>depth chain st r. descent env root depth chain st r \<and> r \<notin> set chain \<and> depth < 5 \<and>
         filesLoaded st = 20)) \<and>
   (mergeConfig env root = Inl (MaxIncludeDepthExceeded n) \<longleftrightarrow>
      n = 5 \<and> (\<exists>chain st r. descent env root 5 chain st r \<and> r \<notin> set chain)) \<and>
   (mergeConfig env root = Inr (doc, refs) \<longrightarrow>
      length refs \<le> 20 \<and>
      (\<forall>r\<in>set refs. \<exists>bytes fragment.
          readRef env r = Inr bytes \<and> length bytes \<le> 1048576 \<and>
          parseFragment env bytes = Some fragment \<and> length (includeRefs fragment) \<le> 10)) \<and>
   mergeConfig (blankEnv 1048576) root = Inr (Mapping [], [root]) \<and>
   mergeConfig (blankEnv 1048577) root = Inl (MaxFileSizeExceeded 1048576 root) \<and>
   mergeConfig (sizedIncludeEnv 1048576) (localRef ''bitrise.yml'') =
     Inr (Mapping [], [localRef ''bitrise.yml'', localRef ''big.yml'']) \<and>
   mergeConfig (sizedIncludeEnv 1048577) (localRef ''bitrise.yml'') =
     Inl (MaxFileSizeExceeded 1048576 (localRef ''big.yml'')) \<and>
   (\<exists>result. mergeConfig (tableEnv tenIncludesFiles) (localRef ''bitrise.yml'') = Inr result) \<and>
   mergeConfig (tableEnv elevenIncludesFiles) (localRef ''bitrise.yml'') =
     Inl (MaxIncludeCountExceeded 10) \<and>
   mergeConfig (tableEnv nestedElevenFiles) (localRef ''bitrise.yml'') =
     Inl (MaxIncludeCountExceeded 10) \<and>
   (\<exists>merged loaded. mergeConfig (tableEnv twentyFiles) (localRef ''bitrise.yml'') =
      Inr (merged, loaded) \<and> distinct loaded \<and> length loaded = 20) \<and>
   mergeConfig (tableEnv twentyOneFiles) (localRef ''bitrise.yml'') =
     Inl (MaxFilesCountExceeded 20) \<and>
   (length (loadList (tableEnv twentyLoadsFiles) 4 (localRef ''bitrise.yml'')) = 20 \<and>
    mergeConfig (tableEnv twentyLoadsFiles) (localRef ''bitrise.yml'') =
      Inr (Mapping [], map localRef [''bitrise.yml'', ''path_1.yml'', ''path_2.yml''])) \<and>
   (length (loadList (tableEnv testFileCountFiles) 4 (localRef ''bitrise.yml'')) = 21 \<and>
    mergeConfig (tableEnv testFileCountFiles) (localRef ''bitrise.yml'') =
      Inl (MaxFilesCountExceeded 20)) \<and>
   (\<exists>result. mergeConfig (tableEnv fourNestedFiles) (localRef ''bitrise.yml'') = Inr result) \<and>
   mergeConfig (tableEnv fiveNestedFiles) (localRef ''bitrise.yml'') =
     Inl (MaxIncludeDepthExceeded 5) \<and>
   map limitMessage
     [MaxFileSizeExceeded 1048576 (localRef ''bitrise.yml''), MaxIncludeCountExceeded 10,
      MaxFilesCountExceeded 20, MaxIncludeDepthExceeded 5] =
     [Some ''max file size (1048576 bytes) exceeded in file bitrise.yml'',
      Some ''max include count (10) exceeded'',
      Some ''max file count (20) exceeded'',
      Some ''max include depth (5) exceeded'']"
proof -
  have incorporated: "mergeConfig env root = Inr (doc, refs) \<longrightarrow>
      length refs \<le> 20 \<and>
      (\<forall>r\<in>set refs. \<exists>bytes fragment.
          readRef env r = Inr bytes \<and> length bytes \<le> 1048576 \<and>
          parseFragment env bytes = Some fragment \<and> length (includeRefs fragment) \<le> 10)"
  proof
    assume run: "mergeConfig env root = Inr (doc, refs)"
    from mergeConfig_within_limits [OF run]
    have "length refs \<le> 20" "\<forall>r\<in>set refs. withinFileLimits env r"
      by (simp_all add: limits list_all_iff)
    then show "length refs \<le> 20 \<and>
      (\<forall>r\<in>set refs. \<exists>bytes fragment.
          readRef env r = Inr bytes \<and> length bytes \<le> 1048576 \<and>
          parseFragment env bytes = Some fragment \<and> length (includeRefs fragment) \<le> 10)"
      by (simp add: withinFileLimits_iff)
  qed
  have twenty: "\<exists>merged loaded. mergeConfig (tableEnv twentyFiles) (localRef ''bitrise.yml'') =
      Inr (merged, loaded) \<and> distinct loaded \<and> length loaded = 20"
    unfolding twentyFiles_run by (simp add: localRef_def)
  have ten: "\<exists>result. mergeConfig (tableEnv tenIncludesFiles) (localRef ''bitrise.yml'') =
      Inr result"
    unfolding tenIncludes_run by blast
  have four: "\<exists>result. mergeConfig (tableEnv fourNestedFiles) (localRef ''bitrise.yml'') =
      Inr result"
    unfolding fourNested_run by blast
  have messages: "map limitMessage
     [MaxFileSizeExceeded 1048576 (localRef ''bitrise.yml''), MaxIncludeCountExceeded 10,
      MaxFilesCountExceeded 20, MaxIncludeDepthExceeded 5] =
     [Some ''max file size (1048576 bytes) exceeded in file bitrise.yml'',
      Some ''max include count (10) exceeded'',
      Some ''max file count (20) exceeded'',
      Some ''max include depth (5) exceeded'']"
    by (simp only: limit_messages list.map)
  show ?thesis
    by (intro conjI)
       (fact mergeConfig_succeeds_paths mergeConfig_size_error_iff
          mergeConfig_include_count_error_iff mergeConfig_file_count_error_iff
          mergeConfig_depth_error_iff incorporated blank_run sizedInclude_run ten
          elevenIncludes_run
          nestedEleven_run twenty twentyOneFiles_run twentyLoads_loads twentyLoads_run
          testFileCount_loads(1) testFileCount_run four fiveNested_run messages)+
qed

theorem mergeConfig_limits_witness:
  "successively (includeEdge (tableEnv fourNestedFiles))
     (localRef ''bitrise.yml'' #
      map localRef [''module_1.yml'', ''module_2.yml'', ''module_3.yml'', ''module_4.yml'']) \<and>
   length (map localRef [''module_1.yml'', ''module_2.yml'', ''module_3.yml'', ''module_4.yml''])
     \<le> 4 \<and>
   (\<exists>bytes fragment.
       readRef (tableEnv fourNestedFiles) (localRef ''module_4.yml'') = Inr bytes \<and>
       length bytes \<le> 1048576 \<and>
       parseFragment (tableEnv fourNestedFiles) bytes = Some fragment \<and>
       length (includeRefs fragment) \<le> 10) \<and>
   length (loadList (tableEnv fourNestedFiles) 4 (localRef ''bitrise.yml'')) \<le> 20 \<and>
   (\<exists>chain st r. descent (tableEnv fiveNestedFiles) (localRef ''bitrise.yml'') 5 chain st r \<and>
      r \<notin> set chain) \<and>
   (\<exists>depth chain st bytes.
      descent (sizedIncludeEnv 1048577) (localRef ''bitrise.yml'') depth chain st
        (localRef ''big.yml'') \<and>
      localRef ''big.yml'' \<notin> set chain \<and> depth < 5 \<and> filesLoaded st < 20 \<and>
      readRef (sizedIncludeEnv 1048577) (localRef ''big.yml'') = Inr bytes \<and>
      1048576 < length bytes)"
proof -
  have run: "\<exists>doc refs. mergeConfig (tableEnv fourNestedFiles) (localRef ''bitrise.yml'') =
      Inr (doc, refs)"
    unfolding fourNested_run by blast
  have path: "successively (includeEdge (tableEnv fourNestedFiles))
     (localRef ''bitrise.yml'' #
      map localRef [''module_1.yml'', ''module_2.yml'', ''module_3.yml'', ''module_4.yml''])"
    using fourNested_path by simp
  note success =
    mergeConfig_limits [where env = "tableEnv fourNestedFiles"
        and root = "localRef ''bitrise.yml''", THEN conjunct1, THEN iffD1, OF run]
  note along = success [THEN conjunct1, THEN spec, THEN mp, OF path]
  note count = success [THEN conjunct2]
  note deep =
    mergeConfig_limits [where env = "tableEnv fiveNestedFiles"
        and root = "localRef ''bitrise.yml''" and n = 5,
      THEN conjunct2, THEN conjunct2, THEN conjunct2, THEN conjunct2, THEN conjunct1,
      THEN iffD1, OF fiveNested_run, THEN conjunct2]
  note big =
    mergeConfig_limits [where env = "sizedIncludeEnv 1048577"
        and root = "localRef ''bitrise.yml''" and n = 1048576 and r = "localRef ''big.yml''",
      THEN conjunct2, THEN conjunct1, THEN iffD1, OF sizedInclude_run(2), THEN conjunct2]
  from path along count deep big show ?thesis by simp
qed

text \<open>
  The claim C7 as stated lets an inclusion chain 5 levels beyond the root succeed, and
  lets 20 distinct loaded files succeed. The chain of the repository's test "Max
  include depth is 5", the root and five nested includes, fails. The files of the
  repository's test "Max 20 config files are allowed", three distinct files of which
  two are loaded ten times each, fail with the file-count error.
\<close>

theorem stated_depth_and_file_count_boundaries_fail:
  "successively (includeEdge (tableEnv fiveNestedFiles))
     (localRef ''bitrise.yml'' #
      map localRef [''module_1.yml'', ''module_2.yml'', ''module_3.yml'', ''module_4.yml'',
                    ''module_5.yml'']) \<and>
   length (map localRef [''module_1.yml'', ''module_2.yml'', ''module_3.yml'', ''module_4.yml'',
                         ''module_5.yml'']) = 5 \<and>
   mergeConfig (tableEnv fiveNestedFiles) (localRef ''bitrise.yml'') =
     Inl (MaxIncludeDepthExceeded 5) \<and>
   remdups (loadList (tableEnv testFileCountFiles) 4 (localRef ''bitrise.yml'')) =
     map localRef [''bitrise.yml'', ''path_1.yml'', ''path_2.yml''] \<and>
   length (loadList (tableEnv testFileCountFiles) 4 (localRef ''bitrise.yml'')) = 21 \<and>
   mergeConfig (tableEnv testFileCountFiles) (localRef ''bitrise.yml'') =
     Inl (MaxFilesCountExceeded 20)"
  using fiveNested_path fiveNested_run testFileCount_loads testFileCount_run by simp

text \<open>
  C8, as amended. A composition whose include graph has a cycle that can be reached
  from the root never succeeds (and the run always ends: the recursion is bounded by the
  depth limit, see the termination proof of \<open>mergeReference\<close>). It fails with a cycle
  error exactly when the traversal arrives, with every check before passed, at a
  reference that is already on its visited chain; the error names the visited chain in
  traversal order: it starts at the root, every reference includes the next, the
  references before the last are distinct and the last repeats one of them, at most six
  in all. In particular a chain of at most five files from the root, each within the
  per-file limits and each the first include entry of the one before, that comes back
  to one of its files fails with the cycle error of this chain. Any failure is the
  error of the first check that fails. The cycles of three and of five files, the
  cycle entered after a sibling, and the cycle of the repository's test fail with their
  chains; the three-file cycle with a, b, c, a.
\<close>

theorem mergeConfig_cycle:
  "((includeEdge env)\<^sup>*\<^sup>* root c \<and> (includeEdge env)\<^sup>+\<^sup>+ c c \<longrightarrow>
      (\<exists>e. mergeConfig env root = Inl e)) \<and>
   (mergeConfig env root = Inl (CircularReference cycle) \<longleftrightarrow>
      (\<exists>depth chain st r. descent env root depth chain st r \<and> r \<in> set chain \<and>
         cycle = chain @ [r])) \<and>
   (mergeConfig env root = Inl (CircularReference cycle) \<longrightarrow>
      (\<exists>rest. cycle = root # rest) \<and> distinct (butlast cycle) \<and>
      last cycle \<in> set (butlast cycle) \<and> successively (includeEdge env) cycle \<and>
      length cycle \<le> 6) \<and>
   (successively (firstInclude env) (visited @ [repeated]) \<and> hd (visited @ [repeated]) = root \<and>
      distinct visited \<and> length visited \<le> 5 \<and> repeated \<in> set visited \<longrightarrow>
      mergeConfig env root = Inl (CircularReference (visited @ [repeated]))) \<and>
   (mergeConfig env root = Inl e \<longleftrightarrow>
      (\<exists>depth chain st r. descent env root depth chain st r \<and>
         checkReference env depth chain st r = Inl e)) \<and>
   mergeConfig (tableEnv threeCycleFiles) (localRef ''a.yml'') =
     Inl (CircularReference (map localRef [''a.yml'', ''b.yml'', ''c.yml'', ''a.yml''])) \<and>
   mergeConfig (tableEnv fiveCycleFiles) (localRef ''a.yml'') =
     Inl (CircularReference
            (map localRef [''a.yml'', ''b.yml'', ''c.yml'', ''d.yml'', ''e.yml'', ''a.yml''])) \<and>
   mergeConfig (tableEnv siblingCycleFiles) (localRef ''a.yml'') =
     Inl (CircularReference (map localRef [''a.yml'', ''b.yml'', ''a.yml''])) \<and>
   mergeConfig (tableEnv testCycleFiles) (localRef ''bitrise.yml'') =
     Inl (CircularReference
            (map localRef [''bitrise.yml'', ''module_1.yml'', ''module_2.yml'', ''module_1.yml''])) \<and>
   limitMessage (CircularReference (map localRef [''a.yml'', ''b.yml'', ''c.yml'', ''a.yml''])) =
     Some ''circular reference detected: a.yml -> b.yml -> c.yml -> a.yml''"
proof -
  have never: "(includeEdge env)\<^sup>*\<^sup>* root c \<and> (includeEdge env)\<^sup>+\<^sup>+ c c \<longrightarrow>
      (\<exists>e. mergeConfig env root = Inl e)"
    using mergeConfig_cycle_fails by blast
  have named: "mergeConfig env root = Inl (CircularReference cycle) \<longrightarrow>
      (\<exists>rest. cycle = root # rest) \<and> distinct (butlast cycle) \<and>
      last cycle \<in> set (butlast cycle) \<and> successively (includeEdge env) cycle \<and>
      length cycle \<le> 6"
  proof
    assume run: "mergeConfig env root = Inl (CircularReference cycle)"
    then obtain depth chain st r where "descent env root depth chain st r"
      and "cycle = chain @ [r]"
      unfolding mergeConfig_cycle_error_iff by blast
    with descent_invariant [of env root depth chain st r] have "length cycle \<le> 6"
      by (simp add: limits)
    with mergeConfig_cycle_chain [OF run]
    show "(\<exists>rest. cycle = root # rest) \<and> distinct (butlast cycle) \<and>
      last cycle \<in> set (butlast cycle) \<and> successively (includeEdge env) cycle \<and>
      length cycle \<le> 6"
      by (simp add: namesVisitedChain_def)
  qed
  have first: "successively (firstInclude env) (visited @ [repeated]) \<and>
      hd (visited @ [repeated]) = root \<and>
      distinct visited \<and> length visited \<le> 5 \<and> repeated \<in> set visited \<longrightarrow>
      mergeConfig env root = Inl (CircularReference (visited @ [repeated]))"
    using firstInclude_cycle [of env visited repeated root] by (simp add: limits)
  show ?thesis
    by (intro conjI)
       (fact never mergeConfig_cycle_error_iff named first mergeConfig_error_iff threeCycle_run
          fiveCycle_run siblingCycle_run testCycle_run limit_messages)+
qed

theorem mergeConfig_cycle_witness:
  "(includeEdge (tableEnv threeCycleFiles))\<^sup>*\<^sup>* (localRef ''a.yml'') (localRef ''a.yml'') \<and>
   (includeEdge (tableEnv threeCycleFiles))\<^sup>+\<^sup>+ (localRef ''a.yml'') (localRef ''a.yml'') \<and>
   (\<exists>e. mergeConfig (tableEnv threeCycleFiles) (localRef ''a.yml'') = Inl e) \<and>
   successively (firstInclude (tableEnv fourCycleFiles))
     (map localRef [''a.yml'', ''b.yml'', ''c.yml'', ''d.yml''] @ [localRef ''a.yml'']) \<and>
   hd (map localRef [''a.yml'', ''b.yml'', ''c.yml'', ''d.yml''] @ [localRef ''a.yml'']) =
     localRef ''a.yml'' \<and>
   distinct (map localRef [''a.yml'', ''b.yml'', ''c.yml'', ''d.yml'']) \<and>
   length (map localRef [''a.yml'', ''b.yml'', ''c.yml'', ''d.yml'']) \<le> 5 \<and>
   localRef ''a.yml'' \<in> set (map localRef [''a.yml'', ''b.yml'', ''c.yml'', ''d.yml'']) \<and>
   mergeConfig (tableEnv fourCycleFiles) (localRef ''a.yml'') =
     Inl (CircularReference
            (map localRef [''a.yml'', ''b.yml'', ''c.yml'', ''d.yml''] @ [localRef ''a.yml'']))"
proof -
  have shape: "hd (map localRef [''a.yml'', ''b.yml'', ''c.yml'', ''d.yml''] @ [localRef ''a.yml'']) =
      localRef ''a.yml''"
    "distinct (map localRef [''a.yml'', ''b.yml'', ''c.yml'', ''d.yml''])"
    "length (map localRef [''a.yml'', ''b.yml'', ''c.yml'', ''d.yml'']) \<le> 5"
    "localRef ''a.yml'' \<in> set (map localRef [''a.yml'', ''b.yml'', ''c.yml'', ''d.yml''])"
    by (simp_all add: localRef_def)
  note fails =
    mergeConfig_cycle [where env = "tableEnv threeCycleFiles" and root = "localRef ''a.yml''"
        and c = "localRef ''a.yml''", THEN conjunct1, THEN mp]
  have three: "\<exists>e. mergeConfig (tableEnv threeCycleFiles) (localRef ''a.yml'') = Inl e"
    by (rule fails) (simp add: threeCycle_cycle)
  note closes =
    mergeConfig_cycle [where env = "tableEnv fourCycleFiles" and root = "localRef ''a.yml''"
        and visited = "map localRef [''a.yml'', ''b.yml'', ''c.yml'', ''d.yml'']"
        and repeated = "localRef ''a.yml''",
      THEN conjunct2, THEN conjunct2, THEN conjunct2, THEN conjunct1, THEN mp]
  have four: "mergeConfig (tableEnv fourCycleFiles) (localRef ''a.yml'') =
     Inl (CircularReference
            (map localRef [''a.yml'', ''b.yml'', ''c.yml'', ''d.yml''] @ [localRef ''a.yml'']))"
    by (rule closes) (intro conjI fourCycle_firstIncludes shape)
  from three four threeCycle_cycle fourCycle_firstIncludes shape show ?thesis
    by (intro conjI) (simp_all only: rtranclp.rtrancl_refl)
qed

text \<open>
  The claim C8 as stated promises a cycle error for every cycle. A cycle of seven files
  is cut off by the depth limit before the traversal comes back to its start, and a
  cycle behind a missing file is never reached: the run ends with the fetch error.
\<close>

theorem cycles_that_fail_without_cycle_error:
  "(includeEdge (tableEnv sevenCycleFiles))\<^sup>+\<^sup>+ (localRef ''a.yml'') (localRef ''a.yml'') \<and>
   mergeConfig (tableEnv sevenCycleFiles) (localRef ''a.yml'') = Inl (MaxIncludeDepthExceeded 5) \<and>
   (includeEdge (tableEnv hiddenCycleFiles))\<^sup>+\<^sup>+ (localRef ''a.yml'') (localRef ''a.yml'') \<and>
   mergeConfig (tableEnv hiddenCycleFiles) (localRef ''a.yml'') =
     Inl (FetchError ''file not found: missing.yml'')"
  using sevenCycle_cycle sevenCycle_run hiddenCycle_cycle hiddenCycle_run by simp

end
